theory Spec2Isabelle
  imports Main
begin

section \<open>Python values, exceptions and string primitives\<close>

text \<open>
  The service is a Flask application (\<^verbatim>\<open>src/app.py\<close>). Its handlers exchange JSON values
  with the client, with a text-generation backend and with a commerce API. A JSON value as
  Python holds it after \<^verbatim>\<open>json.loads\<close> or \<^verbatim>\<open>request.get_json()\<close>: \<^verbatim>\<open>None\<close>, a bool, an
  int, a float, a str, a list or a dict. A float is kept as the decimal it was written as,
  mantissa and power of ten (rounding to binary64 is not represented); a dict is the list of
  its entries in insertion order, with unique keys.
\<close>

datatype json =
    JNull
  | JBool bool
  | JInt int
  | JFloat int int
  | JNaN
  | JInfinity bool
  | JStr string
  | JArr "json list"
  | JObj "(string \<times> json) list"

text \<open>
  An exception is a value: its class and its message, which \<^verbatim>\<open>str(e)\<close> reads. \<open>OtherError\<close>
  stands for every exception class the code does not name (what the backend client, the
  HTTP client or the database driver raise).
\<close>

datatype py_error =
    JSONDecodeError string
  | AttributeError string
  | TypeError string
  | ValueError string
  | OverflowError string
  | OtherError string

fun str_of_error :: "py_error \<Rightarrow> string" where
  "str_of_error (JSONDecodeError m) = m"
| "str_of_error (AttributeError m) = m"
| "str_of_error (TypeError m) = m"
| "str_of_error (ValueError m) = m"
| "str_of_error (OverflowError m) = m"
| "str_of_error (OtherError m) = m"

fun is_JSONDecodeError :: "py_error \<Rightarrow> bool" where
  "is_JSONDecodeError (JSONDecodeError m) = True"
| "is_JSONDecodeError e = False"

text \<open>Python's truth value of an object, as \<^verbatim>\<open>not x\<close> and \<^verbatim>\<open>x or y\<close> test it.\<close>

fun truthy :: "json \<Rightarrow> bool" where
  "truthy JNull = False"
| "truthy (JBool b) = b"
| "truthy (JInt n) = (n \<noteq> 0)"
| "truthy (JFloat m e) = (m \<noteq> 0)"
| "truthy JNaN = True"
| "truthy (JInfinity neg) = True"
| "truthy (JStr s) = (s \<noteq> [])"
| "truthy (JArr xs) = (xs \<noteq> [])"
| "truthy (JObj kvs) = (kvs \<noteq> [])"

text \<open>
  \<^verbatim>\<open>d.get(k, default)\<close>: the value under the key or the default; on an object that is not a
  dict the attribute \<^verbatim>\<open>get\<close> does not exist and Python raises AttributeError.
\<close>

fun py_get_default :: "json \<Rightarrow> string \<Rightarrow> json \<Rightarrow> py_error + json" where
  "py_get_default (JObj kvs) k d = Inr (case map_of kvs k of None \<Rightarrow> d | Some v \<Rightarrow> v)"
| "py_get_default v k d = Inl (AttributeError ''object has no attribute get'')"

definition py_get :: "json \<Rightarrow> string \<Rightarrow> py_error + json" where
  "py_get v k = py_get_default v k JNull"

text \<open>\<^verbatim>\<open>d[k] = v\<close> on a dict: an existing key keeps its position, a new key goes last.\<close>

fun dict_set :: "(string \<times> json) list \<Rightarrow> string \<Rightarrow> json \<Rightarrow> (string \<times> json) list" where
  "dict_set [] k v = [(k, v)]"
| "dict_set ((k', v') # kvs) k v =
     (if k' = k then (k, v) # kvs else (k', v') # dict_set kvs k v)"

text \<open>
  Characters are the code points below 256. \<^verbatim>\<open>str.isspace\<close> holds there of tab, line feed,
  vertical tab, form feed, carriage return, the four separators 0x1C to 0x1F, the space,
  NEL (0x85) and the no-break space (0xA0).
\<close>

definition py_space :: "char \<Rightarrow> bool" where
  "py_space c = (c \<in> {CHR 0x09, CHR 0x0A, CHR 0x0B, CHR 0x0C, CHR 0x0D, CHR 0x1C, CHR 0x1D,
     CHR 0x1E, CHR 0x1F, CHR 0x20, CHR 0x85, CHR 0xA0})"

definition py_strip :: "string \<Rightarrow> string" where
  "py_strip s = rev (dropWhile py_space (rev (dropWhile py_space s)))"

definition py_startswith :: "string \<Rightarrow> string \<Rightarrow> bool" where
  "py_startswith s p = (take (length p) s = p)"

definition py_endswith :: "string \<Rightarrow> string \<Rightarrow> bool" where
  "py_endswith s p = (length p \<le> length s \<and> drop (length s - length p) s = p)"

text \<open>\<^verbatim>\<open>sub in s\<close> on strings: \<open>sub\<close> occurs in \<open>s\<close> as a contiguous substring.\<close>

fun py_in :: "string \<Rightarrow> string \<Rightarrow> bool" where
  "py_in sub [] = (sub = [])"
| "py_in sub (c # cs) = (py_startswith (c # cs) sub \<or> py_in sub cs)"

text \<open>
  \<^verbatim>\<open>s.replace(old, new)\<close> for a non-empty \<open>old\<close>: the occurrences are found from the left
  and do not overlap.
\<close>

function py_replace :: "string \<Rightarrow> string \<Rightarrow> string \<Rightarrow> string" where
  "py_replace [] old new = []"
| "py_replace (c # cs) old new =
     (if old \<noteq> [] \<and> py_startswith (c # cs) old
      then new @ py_replace (drop (length old) (c # cs)) old new
      else c # py_replace cs old new)"
  by pat_completeness auto
termination
  by (relation "measure (\<lambda>(s, old, new). length s)") (auto simp: neq_Nil_conv)

text \<open>
  \<^verbatim>\<open>str.lower\<close> on the code points below 256: the ASCII capitals and the Latin-1 capitals
  0xC0 to 0xDE (the multiplication sign 0xD7 apart) move up by 32.
\<close>

definition lower_char :: "char \<Rightarrow> char" where
  "lower_char c =
     (let n = (of_char c :: nat)
      in if (65 \<le> n \<and> n \<le> 90) \<or> (192 \<le> n \<and> n \<le> 222 \<and> n \<noteq> 215)
         then char_of (n + 32) else c)"

definition py_lower :: "string \<Rightarrow> string" where
  "py_lower s = map lower_char s"

text \<open>
  \<^verbatim>\<open>re.search(r'\{.*\}', s, re.DOTALL)\<close>: the match starts at the first opening brace and,
  the star being greedy and the dot matching every character, ends at the last closing
  brace after it; there is no match when no closing brace follows the first opening one.
\<close>

definition re_search_braces :: "string \<Rightarrow> string option" where
  "re_search_braces s =
     (case dropWhile (\<lambda>c. c \<noteq> CHR ''{'') s of
        [] \<Rightarrow> None
      | b # body \<Rightarrow>
          (if CHR ''}'' \<in> set body
           then Some (b # rev (dropWhile (\<lambda>c. c \<noteq> CHR ''}'') (rev body)))
           else None))"

section \<open>The refinement loop: \<^verbatim>\<open>continue_chat\<close>\<close>

text \<open>
  A response of a handler: the status code and the JSON body (\<^verbatim>\<open>jsonify(...)\<close> alone is
  status 200). A handler that lets an exception escape returns \<open>Inl\<close> of it.
\<close>

record response =
  status :: nat
  body :: json

text \<open>
  One entry of the process-wide \<^verbatim>\<open>SESSION_CONTEXT\<close> dict, as \<^verbatim>\<open>start_chat\<close> stores it. The
  search results are database rows and API records, kept at the types \<open>'f\<close> and \<open>'p\<close>.
\<close>

record ('f, 'p) session =
  chat_history :: "json list"
  food_items :: json
  products :: json
  food_search_results :: 'f
  product_search_results :: 'p
  final_selection :: json

text \<open>
  What a call of the text-generation backend is given. The prompts are fixed texts around
  these values, so the backend is a function of them; it returns the text of the first
  choice or raises (a missing content makes the following \<^verbatim>\<open>.strip()\<close> raise, in the same
  \<^verbatim>\<open>try\<close> scope as the call itself in all three callers).
\<close>

datatype ('f, 'p) llm_request =
    SuggestRequest string "string list" "string list"
  | SelectRequest string 'f 'p
  | RefineRequest "json list" json

definition turn :: "string \<Rightarrow> json \<Rightarrow> json" where
  "turn role content = JObj [(''role'', JStr role), (''content'', content)]"

text \<open>
  \<^verbatim>\<open>SESSION_CONTEXT.get(session_id)\<close>: the keys are the strings \<^verbatim>\<open>str(uuid4())\<close>; a list or a
  dict is unhashable and the lookup raises TypeError; any other value is no key.
\<close>

fun session_get ::
  "(string \<rightharpoonup> ('f, 'p) session) \<Rightarrow> json \<Rightarrow> py_error + (string \<times> ('f, 'p) session) option" where
  "session_get ctxs (JStr sid) = Inr (map_option (\<lambda>c. (sid, c)) (ctxs sid))"
| "session_get ctxs (JArr xs) = Inl (TypeError ''unhashable type: list'')"
| "session_get ctxs (JObj kvs) = Inl (TypeError ''unhashable type: dict'')"
| "session_get ctxs v = Inr None"

text \<open>
  The body of the \<^verbatim>\<open>try\<close> up to the parse: the backend call, \<^verbatim>\<open>.strip()\<close> and
  \<^verbatim>\<open>json.loads\<close>, which is a parameter (\<open>loads\<close>) returning the value or the exception.
\<close>

definition revise ::
  "(string \<Rightarrow> py_error + json) \<Rightarrow> (('f, 'p) llm_request \<Rightarrow> py_error + string) \<Rightarrow>
   json list \<Rightarrow> json \<Rightarrow> py_error + (string \<times> json)" where
  "revise loads backend messages selection =
     (case backend (RefineRequest messages selection) of
        Inl e \<Rightarrow> Inl e
      | Inr content \<Rightarrow>
          (let revised = py_strip content
           in case loads revised of
                Inl e \<Rightarrow> Inl e
              | Inr revised_data \<Rightarrow> Inr (revised, revised_data)))"

definition continue_chat ::
  "(string \<Rightarrow> py_error + json) \<Rightarrow> (('f, 'p) llm_request \<Rightarrow> py_error + string) \<Rightarrow>
   (string \<rightharpoonup> ('f, 'p) session) \<Rightarrow> json \<Rightarrow>
   (py_error + response) \<times> (string \<rightharpoonup> ('f, 'p) session)" where
  "continue_chat loads backend ctxs data =
     (case py_get data ''session_id'' of
        Inl e \<Rightarrow> (Inl e, ctxs)
      | Inr session_id \<Rightarrow>
     (case py_get data ''message'' of
        Inl e \<Rightarrow> (Inl e, ctxs)
      | Inr followup_message \<Rightarrow>
     if \<not> truthy session_id \<or> \<not> truthy followup_message
     then (Inr \<lparr>status = 400,
                body = JObj [(''error'', JStr ''Session ID and message are required'')]\<rparr>, ctxs)
     else
     (case session_get ctxs session_id of
        Inl e \<Rightarrow> (Inl e, ctxs)
      | Inr None \<Rightarrow>
          (Inr \<lparr>status = 404, body = JObj [(''error'', JStr ''Invalid session ID'')]\<rparr>, ctxs)
      | Inr (Some (sid, context)) \<Rightarrow>
          (let history1 = chat_history context @ [turn ''user'' followup_message];
               context1 = context\<lparr>chat_history := history1\<rparr>
           in case revise loads backend history1 (final_selection context1) of
                Inr (revised, revised_data) \<Rightarrow>
                  (let history2 = history1 @ [turn ''assistant'' (JStr revised)];
                       context2 = context1\<lparr>final_selection := revised_data,
                                           chat_history := history2\<rparr>
                   in (Inr \<lparr>status = 200,
                            body = JObj [(''revised_selection'', revised_data),
                                         (''chat_history'', JArr history2)]\<rparr>,
                       ctxs(sid \<mapsto> context2)))
              | Inl e \<Rightarrow>
                  (Inr \<lparr>status = 200,
                        body = JObj [(''error'', JStr ''Failed to process revision''),
                                     (''details'', JStr (str_of_error e))]\<rparr>,
                   ctxs(sid \<mapsto> context1))))))"

section \<open>The final selection stage: \<^verbatim>\<open>get_final_combined_selection\<close>\<close>

definition empty_selection :: json where
  "empty_selection = JObj [(''food_selection'', JArr []), (''product_selection'', JArr [])]"

text \<open>
  The backend call stands outside every \<^verbatim>\<open>try\<close>: what it raises leaves the function. The
  two \<^verbatim>\<open>except\<close> clauses catch \<^verbatim>\<open>json.JSONDecodeError\<close> only.
\<close>

text \<open>Step 1 of the function, "Remove markdown formatting", on the stripped content.\<close>

definition selection_clean :: "string \<Rightarrow> string" where
  "selection_clean content =
     (let selected_data0 = py_strip content;
          selected_data1 =
            (if py_startswith selected_data0 ''```json''
             then py_strip (py_replace selected_data0 ''```json'' '''')
             else if py_startswith selected_data0 ''```''
             then py_strip (py_replace selected_data0 ''```'' '''')
             else selected_data0)
      in if py_endswith selected_data1 ''```''
         then py_strip (take (length selected_data1 - 3) selected_data1)
         else selected_data1)"

definition get_final_combined_selection ::
  "(string \<Rightarrow> py_error + json) \<Rightarrow> (('f, 'p) llm_request \<Rightarrow> py_error + string) \<Rightarrow>
   string \<Rightarrow> 'f \<Rightarrow> 'p \<Rightarrow> py_error + json" where
  "get_final_combined_selection loads backend user_query food_results product_results =
     (case backend (SelectRequest user_query food_results product_results) of
        Inl e \<Rightarrow> Inl e
      | Inr content \<Rightarrow>
          (let selected_data = selection_clean content
           in case loads selected_data of
                Inr v \<Rightarrow> Inr v
              | Inl e \<Rightarrow>
                  (if \<not> is_JSONDecodeError e then Inl e
                   else
                     (case re_search_braces selected_data of
                        Some json_str \<Rightarrow>
                          (case loads json_str of
                             Inr v \<Rightarrow> Inr v
                           | Inl e2 \<Rightarrow>
                               (if is_JSONDecodeError e2 then Inr empty_selection
                                else Inl e2))
                      | None \<Rightarrow> Inr empty_selection))))"

section \<open>The fallback engine: \<^verbatim>\<open>create_fallback_suggestions\<close>\<close>

text \<open>
  \<^verbatim>\<open>random.sample(population, k)\<close> draws \<open>k\<close> positions without replacement. The generator
  is an explicit stream of naturals: each draw takes the next one modulo the number of
  positions left, so every outcome of the library function is the outcome of some stream.
  A \<open>k\<close> above the population size raises ValueError.
\<close>

type_synonym rng = "nat \<Rightarrow> nat"

fun sample_draw :: "rng \<Rightarrow> 'a list \<Rightarrow> nat \<Rightarrow> 'a list" where
  "sample_draw r xs 0 = []"
| "sample_draw r [] (Suc k) = []"
| "sample_draw r (x # xs) (Suc k) =
     (let i = r 0 mod length (x # xs)
      in (x # xs) ! i # sample_draw (\<lambda>n. r (Suc n)) (take i (x # xs) @ drop (Suc i) (x # xs)) k)"

definition random_sample :: "rng \<Rightarrow> 'a list \<Rightarrow> nat \<Rightarrow> (py_error + 'a list) \<times> rng" where
  "random_sample r population k =
     (if k > length population
      then (Inl (ValueError ''Sample larger than population or is negative''), r)
      else (Inr (sample_draw r population k), (\<lambda>n. r (n + k))))"

text \<open>\<^verbatim>\<open>list(dict.fromkeys(xs))\<close>: the first occurrence of each element, in order.\<close>

fun fromkeys :: "'a list \<Rightarrow> 'a list" where
  "fromkeys [] = []"
| "fromkeys (x # xs) = x # removeAll x (fromkeys xs)"

text \<open>
  The loop over the keywords: the catalog names containing the keyword (both lowered), and
  the first two of them appended when there are any.
\<close>

fun keyword_matches :: "string list \<Rightarrow> string list \<Rightarrow> string list \<Rightarrow> string list" where
  "keyword_matches [] available suggested = suggested"
| "keyword_matches (keyword # keywords) available suggested =
     (let matches = filter (\<lambda>item. py_in (py_lower keyword) (py_lower item)) available
      in keyword_matches keywords available
           (if matches \<noteq> [] then suggested @ take 2 matches else suggested))"

definition event_keywords :: "string \<Rightarrow> string list \<times> string list" where
  "event_keywords query_lower =
     (if py_in ''birthday'' query_lower \<or> py_in ''party'' query_lower
      then ([''cake'', ''burger'', ''pizza'', ''brownie'', ''cupcake'', ''muffin''],
            [''lights'', ''poppers'', ''curtain'', ''towels''])
      else if py_in ''picnic'' query_lower \<or> py_in ''outdoor'' query_lower
      then ([''sandwich'', ''chips'', ''juice'', ''water'', ''snacks''],
            [''towels'', ''wipes'', ''storage'', ''bag''])
      else if py_in ''dinner'' query_lower \<or> py_in ''meal'' query_lower
      then ([''biryani'', ''curry'', ''naan'', ''rice'', ''dal''],
            [''plates'', ''storage'', ''cleaner''])
      else ([''burger'', ''pizza'', ''coffee'', ''tea'', ''snacks''],
            [''storage'', ''cleaner'', ''towels'']))"

text \<open>The dict the two suggestion functions return.\<close>

definition suggestion_set :: "string list \<Rightarrow> string list \<Rightarrow> json" where
  "suggestion_set foods prods =
     JObj [(''food_items'', JArr (map JStr foods)), (''products'', JArr (map JStr prods))]"

text \<open>
  \<^verbatim>\<open>if not suggested and available: suggested = random.sample(available, min(3, len(available)))\<close>
\<close>

definition sample_if_empty ::
  "rng \<Rightarrow> string list \<Rightarrow> string list \<Rightarrow> (py_error + string list) \<times> rng" where
  "sample_if_empty r suggested available =
     (if suggested = [] \<and> available \<noteq> []
      then random_sample r available (min 3 (length available))
      else (Inr suggested, r))"

definition create_fallback_suggestions ::
  "rng \<Rightarrow> string \<Rightarrow> string list \<Rightarrow> string list \<Rightarrow> (py_error + json) \<times> rng" where
  "create_fallback_suggestions r user_query available_food_items available_products =
     (let query_lower = py_lower user_query;
          (food_keywords, product_keywords) = event_keywords query_lower;
          suggested_food0 = keyword_matches food_keywords available_food_items [];
          suggested_products0 = keyword_matches product_keywords available_products []
      in case sample_if_empty r suggested_food0 available_food_items of
           (Inl e, r1) \<Rightarrow> (Inl e, r1)
         | (Inr suggested_food1, r1) \<Rightarrow>
             (case sample_if_empty r1 suggested_products0 available_products of
                (Inl e, r2) \<Rightarrow> (Inl e, r2)
              | (Inr suggested_products1, r2) \<Rightarrow>
                  (Inr (suggestion_set (take 5 (fromkeys suggested_food1))
                                       (take 5 (fromkeys suggested_products1))), r2)))"

section \<open>The suggestion stage: \<^verbatim>\<open>get_suggested_items_and_products\<close>\<close>

text \<open>
  The whole body is inside \<^verbatim>\<open>try ... except Exception\<close>, whose handler calls the fallback
  engine. The inner \<^verbatim>\<open>except\<close> clauses catch \<^verbatim>\<open>json.JSONDecodeError\<close>. The first call of the
  fallback engine (after both parses failed) is itself inside the outer \<^verbatim>\<open>try\<close>.
\<close>

text \<open>"Clean up the response - remove any markdown formatting", on the stripped content.\<close>

definition suggestion_clean :: "string \<Rightarrow> string" where
  "suggestion_clean content =
     (let suggested_data = py_strip content
      in if py_startswith suggested_data ''```json''
         then py_strip (py_replace (py_replace suggested_data ''```json'' '''') ''```'' '''')
         else if py_startswith suggested_data ''```''
         then py_strip (py_replace suggested_data ''```'' '''')
         else suggested_data)"

definition get_suggested_items_and_products ::
  "(string \<Rightarrow> py_error + json) \<Rightarrow> (('f, 'p) llm_request \<Rightarrow> py_error + string) \<Rightarrow>
   rng \<Rightarrow> string \<Rightarrow> string list \<Rightarrow> string list \<Rightarrow> (py_error + json) \<times> rng" where
  "get_suggested_items_and_products loads backend r user_query available_food_items
       available_products =
     (let fallback = (\<lambda>r'. create_fallback_suggestions r' user_query available_food_items
                              available_products);
          parsing_failed = (\<lambda>u::unit.
             case fallback r of
               (Inr v, r1) \<Rightarrow> (Inr v, r1)
             | (Inl e, r1) \<Rightarrow> fallback r1)
      in case backend (SuggestRequest user_query (take 50 available_food_items)
                         (take 50 available_products)) of
           Inl e \<Rightarrow> fallback r
         | Inr content \<Rightarrow>
             (let suggested_data = suggestion_clean content
              in case loads suggested_data of
                   Inr result \<Rightarrow> (Inr result, r)
                 | Inl e \<Rightarrow>
                     (if \<not> is_JSONDecodeError e then fallback r
                      else
                        (case re_search_braces suggested_data of
                           Some json_str \<Rightarrow>
                             (case loads json_str of
                                Inr result \<Rightarrow> (Inr result, r)
                              | Inl e2 \<Rightarrow>
                                  (if is_JSONDecodeError e2 then parsing_failed ()
                                   else fallback r))
                         | None \<Rightarrow> parsing_failed ()))))"

section \<open>The search aggregator: \<^verbatim>\<open>fetch_food_search_results\<close>\<close>

text \<open>
  A row of \<^verbatim>\<open>food.menu_items\<close>: the two columns the query names, both nullable, and the
  other columns together. The rating is of any linearly ordered type.
\<close>

record ('r, 'c) menu_item =
  name :: "string option"
  review :: "'r option"
  columns :: 'c

text \<open>
  \<^verbatim>\<open>ORDER BY review DESC NULLS LAST\<close>: a row stands before another when the other has no
  rating, or both have one and its own is not the smaller. SQL leaves the order of rows with
  equal ratings open; here they keep the order of the table.
\<close>

definition review_before :: "('r::linorder, 'c) menu_item \<Rightarrow> ('r, 'c) menu_item \<Rightarrow> bool" where
  "review_before a b =
     (case review b of
        None \<Rightarrow> True
      | Some y \<Rightarrow> (case review a of None \<Rightarrow> False | Some x \<Rightarrow> y \<le> x))"

fun insert_by_review ::
  "('r::linorder, 'c) menu_item \<Rightarrow> ('r, 'c) menu_item list \<Rightarrow> ('r, 'c) menu_item list" where
  "insert_by_review a [] = [a]"
| "insert_by_review a (b # bs) =
     (if review_before a b then a # b # bs else b # insert_by_review a bs)"

definition order_by_review :: "('r::linorder, 'c) menu_item list \<Rightarrow> ('r, 'c) menu_item list" where
  "order_by_review rows = foldr insert_by_review rows []"

text \<open>
  \<^verbatim>\<open>SELECT * FROM food.menu_items WHERE LOWER(name) = LOWER(%s)
  ORDER BY review DESC NULLS LAST LIMIT 3\<close> on a table. A null name equals nothing.
\<close>

definition menu_items_query ::
  "('r::linorder, 'c) menu_item list \<Rightarrow> string \<Rightarrow> ('r, 'c) menu_item list" where
  "menu_items_query table item =
     take 3 (order_by_review
       (filter (\<lambda>row. case name row of None \<Rightarrow> False
                                      | Some n \<Rightarrow> py_lower n = py_lower item) table))"

text \<open>
  The loop inside the \<^verbatim>\<open>try\<close>: \<open>raises i\<close> tells whether the \<open>i\<close>-th \<^verbatim>\<open>cursor.execute\<close>
  raises. The result is the exception, if any, and the dict as it stands then.
\<close>

fun fetch_loop ::
  "('r::linorder, 'c) menu_item list \<Rightarrow> (nat \<Rightarrow> py_error option) \<Rightarrow> nat \<Rightarrow> string list \<Rightarrow>
   (string \<rightharpoonup> ('r, 'c) menu_item list) \<Rightarrow>
   py_error option \<times> (string \<rightharpoonup> ('r, 'c) menu_item list)" where
  "fetch_loop table raises i [] search_results = (None, search_results)"
| "fetch_loop table raises i (item # items) search_results =
     (case raises i of
        Some e \<Rightarrow> (Some e, search_results)
      | None \<Rightarrow>
          fetch_loop table raises (Suc i) items
            (search_results(item \<mapsto> menu_items_query table item)))"

text \<open>\<^verbatim>\<open>for item in item_list: search_results[item] = []\<close>\<close>

definition all_empty ::
  "string list \<Rightarrow> (string \<rightharpoonup> 'a list) \<Rightarrow> (string \<rightharpoonup> 'a list)" where
  "all_empty item_list search_results = fold (\<lambda>item m. m(item \<mapsto> [])) item_list search_results"

text \<open>
  \<open>conn\<close> is the table the connection reads, or \<open>None\<close> when \<^verbatim>\<open>get_db_connection()\<close>
  returned \<^verbatim>\<open>None\<close>.
\<close>

definition fetch_food_search_results ::
  "('r::linorder, 'c) menu_item list option \<Rightarrow> (nat \<Rightarrow> py_error option) \<Rightarrow> string list \<Rightarrow>
   (string \<rightharpoonup> ('r, 'c) menu_item list)" where
  "fetch_food_search_results conn raises item_list =
     (case conn of
        None \<Rightarrow> all_empty item_list Map.empty
      | Some table \<Rightarrow>
          (case fetch_loop table raises 0 item_list Map.empty of
             (None, search_results) \<Rightarrow> search_results
           | (Some e, search_results) \<Rightarrow> all_empty item_list search_results))"

section \<open>The cart endpoint: \<^verbatim>\<open>add_items_to_cart\<close>\<close>

definition is_digit :: "char \<Rightarrow> bool" where
  "is_digit c = (48 \<le> (of_char c :: nat) \<and> (of_char c :: nat) \<le> 57)"

definition digit_val :: "char \<Rightarrow> nat" where
  "digit_val c = of_char c - 48"

text \<open>
  \<^verbatim>\<open>int(s)\<close> on a string: surrounding whitespace is dropped, a sign may lead, and the
  digits may be grouped by single underscores.
\<close>

fun digits_value :: "nat \<Rightarrow> string \<Rightarrow> nat option" where
  "digits_value n [] = Some n"
| "digits_value n (c # cs) =
     (if is_digit c then digits_value (10 * n + digit_val c) cs
      else if c = CHR ''_'' \<and> cs \<noteq> [] \<and> is_digit (hd cs) then digits_value n cs
      else None)"

definition unsigned_of_string :: "string \<Rightarrow> nat option" where
  "unsigned_of_string s =
     (case s of [] \<Rightarrow> None | c # cs \<Rightarrow> if is_digit c then digits_value 0 s else None)"

definition int_of_string :: "string \<Rightarrow> int option" where
  "int_of_string s =
     (case py_strip s of
        [] \<Rightarrow> None
      | c # cs \<Rightarrow>
          (if c = CHR ''-'' then map_option (\<lambda>n. - int n) (unsigned_of_string cs)
           else if c = CHR ''+'' then map_option int (unsigned_of_string cs)
           else map_option int (unsigned_of_string (c # cs))))"

text \<open>
  \<^verbatim>\<open>int(x)\<close>: a float is cut towards zero (on the decimal as written), NaN and the
  infinities raise, \<^verbatim>\<open>None\<close>, lists and dicts are a TypeError.
\<close>

fun py_int :: "json \<Rightarrow> py_error + int" where
  "py_int (JInt n) = Inr n"
| "py_int (JBool b) = Inr (if b then 1 else 0)"
| "py_int (JFloat m e) =
     Inr (if 0 \<le> e then m * 10 ^ nat e
          else if 0 \<le> m then m div 10 ^ nat (- e) else - ((- m) div 10 ^ nat (- e)))"
| "py_int JNaN = Inl (ValueError ''cannot convert float NaN to integer'')"
| "py_int (JInfinity neg) = Inl (OverflowError ''cannot convert float infinity to integer'')"
| "py_int (JStr s) =
     (case int_of_string s of
        None \<Rightarrow> Inl (ValueError ''invalid literal for int() with base 10'')
      | Some n \<Rightarrow> Inr n)"
| "py_int v = Inl (TypeError ''int() argument must be a string or a real number'')"

text \<open>
  \<^verbatim>\<open>for item in food_selection\<close>: a list gives its elements, a string its characters, a dict
  its keys; nothing else that is truthy can be iterated.
\<close>

fun py_iter :: "json \<Rightarrow> py_error + json list" where
  "py_iter (JArr xs) = Inr xs"
| "py_iter (JStr s) = Inr (map (\<lambda>c. JStr [c]) s)"
| "py_iter (JObj kvs) = Inr (map (\<lambda>(k, v). JStr k) kvs)"
| "py_iter v = Inl (TypeError ''object is not iterable'')"

definition user_id :: string where
  "user_id = ''5d320bcc-5ccd-4510-aace-695a3d864c18''"

text \<open>
  The dict literal \<^verbatim>\<open>payload\<close>, its entries evaluated in order; it stands before the \<^verbatim>\<open>try\<close>,
  so what \<^verbatim>\<open>item.get\<close> or \<^verbatim>\<open>int\<close> raise leaves the handler.
\<close>

definition make_payload :: "json \<Rightarrow> py_error + json" where
  "make_payload item =
     (case py_get item ''restaurant_id'' of Inl e \<Rightarrow> Inl e | Inr restaurant_id \<Rightarrow>
     (case py_get item ''item_id'' of Inl e \<Rightarrow> Inl e | Inr item_id \<Rightarrow>
     (case py_get_default item ''quantity'' (JInt 1) of Inl e \<Rightarrow> Inl e | Inr q \<Rightarrow>
     (case py_int q of Inl e \<Rightarrow> Inl e | Inr quantity \<Rightarrow>
     (case py_get item ''producturl'' of Inl e \<Rightarrow> Inl e | Inr producturl \<Rightarrow>
     (case (if truthy producturl then Inr producturl else py_get item ''image_url'') of
        Inl e \<Rightarrow> Inl e
      | Inr url \<Rightarrow>
          Inr (JObj [(''user_id'', JStr user_id), (''restaurant_id'', restaurant_id),
                     (''item_id'', item_id), (''quantity'', JInt quantity),
                     (''producturl'', url)])))))))"

text \<open>
  The commerce API: \<^verbatim>\<open>requests.post(f"{SERVER_URL}/cart/add", json=payload)\<close> in a state
  \<open>'w\<close> of the outside world either raises or answers with a status code and a text
  (\<^verbatim>\<open>response.text\<close>, here \<open>response_text\<close>), and
  leaves a new state.
\<close>

record http_response =
  status_code :: nat
  response_text :: string

record 'w cart_run =
  added_items :: "json list"
  failed_items :: "json list"
  posted :: "json list"
  world :: 'w

fun add_loop ::
  "('w \<Rightarrow> json \<Rightarrow> (py_error + http_response) \<times> 'w) \<Rightarrow> json list \<Rightarrow> 'w cart_run \<Rightarrow>
   py_error option \<times> 'w cart_run" where
  "add_loop post [] run = (None, run)"
| "add_loop post (item # items) run =
     (case make_payload item of
        Inl e \<Rightarrow> (Some e, run)
      | Inr payload \<Rightarrow>
          (case post (world run) payload of
             (Inr response, w) \<Rightarrow>
               (if status_code response = 200
                then add_loop post items
                       (run\<lparr>added_items := added_items run @ [payload],
                            posted := posted run @ [payload], world := w\<rparr>)
                else add_loop post items
                       (run\<lparr>failed_items := failed_items run @
                              [JObj [(''item'', item), (''reason'', JStr (response_text response))]],
                            posted := posted run @ [payload], world := w\<rparr>))
           | (Inl e, w) \<Rightarrow>
               add_loop post items
                 (run\<lparr>failed_items := failed_items run @
                        [JObj [(''item'', item), (''reason'', JStr (str_of_error e))]],
                      posted := posted run @ [payload], world := w\<rparr>)))"

text \<open>
  The handler on the request body \<open>data\<close>: its result, the payloads it has sent to the
  commerce API, in order, and the state it leaves the outside world in.
\<close>

definition add_items_to_cart ::
  "('w \<Rightarrow> json \<Rightarrow> (py_error + http_response) \<times> 'w) \<Rightarrow> 'w \<Rightarrow> json \<Rightarrow>
   (py_error + response) \<times> json list \<times> 'w" where
  "add_items_to_cart post w data =
     (case py_get data ''food_selection'' of
        Inl e \<Rightarrow> (Inl e, [], w)
      | Inr food_selection \<Rightarrow>
          (if \<not> truthy food_selection \<or> \<not> truthy (JStr user_id)
           then (Inr \<lparr>status = 400,
                      body = JObj [(''error'', JStr ''Missing food_selection or user_id'')]\<rparr>,
                 [], w)
           else
             (case py_iter food_selection of
                Inl e \<Rightarrow> (Inl e, [], w)
              | Inr items \<Rightarrow>
                  (case add_loop post items
                          \<lparr>added_items = [], failed_items = [], posted = [], world = w\<rparr> of
                     (Some e, run) \<Rightarrow> (Inl e, posted run, world run)
                   | (None, run) \<Rightarrow>
                       (Inr \<lparr>status = 200,
                             body = JObj [(''status'', JStr ''completed''),
                                          (''added'', JArr (added_items run)),
                                          (''failed'', JArr (failed_items run))]\<rparr>,
                        posted run, world run)))))"

section \<open>A decoder for JSON texts: \<^verbatim>\<open>json.loads\<close>\<close>

text \<open>
  The stage functions take \<^verbatim>\<open>json.loads\<close> as a parameter. \<open>json_loads\<close> below is a decoder
  to instantiate that parameter with: Python's grammar (the numbers of its
  \<^verbatim>\<open>NUMBER_RE\<close>, the constants \<^verbatim>\<open>NaN\<close>, \<^verbatim>\<open>Infinity\<close> and \<^verbatim>\<open>-Infinity\<close>, strict strings, the four
  whitespace characters) on texts of code points below 256, in two passes: the text is cut
  into tokens, and the tokens are read by a stack automaton. A \<^verbatim>\<open>\u\<close> escape above 0xFF has
  no character here and is refused; the message of the exception is not Python's.
\<close>

datatype token =
    TLBrace | TRBrace | TLBracket | TRBracket | TColon | TComma
  | TValue json

definition json_ws :: "char \<Rightarrow> bool" where
  "json_ws c = (c \<in> {CHR 0x20, CHR 0x09, CHR 0x0A, CHR 0x0D})"

definition hex_val :: "char \<Rightarrow> nat option" where
  "hex_val c =
     (let n = (of_char c :: nat)
      in if 48 \<le> n \<and> n \<le> 57 then Some (n - 48)
         else if 65 \<le> n \<and> n \<le> 70 then Some (n - 55)
         else if 97 \<le> n \<and> n \<le> 102 then Some (n - 87)
         else None)"

definition unicode_escape :: "string \<Rightarrow> char option" where
  "unicode_escape hs =
     (case map hex_val hs of
        [Some a, Some b, Some c, Some d] \<Rightarrow>
          (if a = 0 \<and> b = 0 then Some (char_of (16 * c + d)) else None)
      | _ \<Rightarrow> None)"

definition unescape :: "char \<Rightarrow> char option" where
  "unescape e =
     (if e = CHR 0x22 \<or> e = CHR 0x5C \<or> e = CHR ''/'' then Some e
      else if e = CHR ''b'' then Some (CHR 0x08)
      else if e = CHR ''f'' then Some (CHR 0x0C)
      else if e = CHR ''n'' then Some (CHR 0x0A)
      else if e = CHR ''r'' then Some (CHR 0x0D)
      else if e = CHR ''t'' then Some (CHR 0x09)
      else None)"

text \<open>
  The text after an opening quote: the decoded string and the number of characters read,
  the closing quote included.
\<close>

fun lex_string :: "string \<Rightarrow> (string \<times> nat) option" where
  "lex_string [] = None"
| "lex_string (c # cs) =
     (if c = CHR 0x22 then Some ([], 1)
      else if c = CHR 0x5C then
        (case cs of
           [] \<Rightarrow> None
         | e # cs' \<Rightarrow>
             (if e = CHR ''u'' then
                (case unicode_escape (take 4 cs') of
                   None \<Rightarrow> None
                 | Some d \<Rightarrow> map_option (\<lambda>(s, n). (d # s, n + 6)) (lex_string (drop 4 cs')))
              else
                (case unescape e of
                   None \<Rightarrow> None
                 | Some d \<Rightarrow> map_option (\<lambda>(s, n). (d # s, n + 2)) (lex_string cs'))))
      else if (of_char c :: nat) < 32 then None
      else map_option (\<lambda>(s, n). (c # s, n + 1)) (lex_string cs))"

definition nat_of_digits :: "string \<Rightarrow> nat" where
  "nat_of_digits ds = foldl (\<lambda>n c. 10 * n + digit_val c) 0 ds"

text \<open>
  A number is \<^verbatim>\<open>(-?(?:0|[1-9][0-9]*))(\.[0-9]+)?([eE][-+]?[0-9]+)?\<close> at the start of the
  text. The three groups are read by \<open>int_part\<close>, \<open>frac_part\<close> and \<open>lex_exponent\<close>; an
  optional group that does not match in full matches nothing. \<open>lex_exponent\<close> gives the
  exponent and the number of characters of its group.
\<close>

definition lex_exponent :: "string \<Rightarrow> (int \<times> nat) option" where
  "lex_exponent s =
     (case s of
        [] \<Rightarrow> None
      | e # r \<Rightarrow>
          (if e = CHR ''e'' \<or> e = CHR ''E'' then
             (case r of
                [] \<Rightarrow> None
              | g # r' \<Rightarrow>
                  (if g = CHR ''-'' \<or> g = CHR ''+'' then
                     (let ds = takeWhile is_digit r'
                      in if ds = [] then None
                         else Some ((if g = CHR ''-'' then - int (nat_of_digits ds)
                                     else int (nat_of_digits ds)), 2 + length ds))
                   else
                     (let ds = takeWhile is_digit r
                      in if ds = [] then None
                         else Some (int (nat_of_digits ds), 1 + length ds))))
           else None))"

text \<open>The integer digits and the rest of the text; the fraction digits and the rest.\<close>

definition int_part :: "string \<Rightarrow> (string \<times> string) option" where
  "int_part s =
     (case s of
        [] \<Rightarrow> None
      | c # cs \<Rightarrow>
          (if c = CHR ''0'' then Some ([c], cs)
           else if is_digit c then Some (takeWhile is_digit s, dropWhile is_digit s)
           else None))"

definition frac_part :: "string \<Rightarrow> string \<times> string" where
  "frac_part s =
     (case s of
        [] \<Rightarrow> ([], s)
      | c # cs \<Rightarrow>
          (if c = CHR ''.'' \<and> takeWhile is_digit cs \<noteq> []
           then (takeWhile is_digit cs, dropWhile is_digit cs)
           else ([], s)))"

text \<open>
  The number after its optional minus sign, and the count of characters matched, the sign
  included. Without fraction and exponent it is an int, else a float.
\<close>

definition number_body :: "bool \<Rightarrow> string \<Rightarrow> (json \<times> nat) option" where
  "number_body neg s1 =
     (case int_part s1 of
        None \<Rightarrow> None
      | Some (ipart, s2) \<Rightarrow>
          (let (fpart, s3) = frac_part s2;
               epart = lex_exponent s3;
               n = (if neg then 1 else 0) + length ipart
                   + (if fpart = [] then 0 else Suc (length fpart))
                   + (case epart of None \<Rightarrow> 0 | Some (x, k) \<Rightarrow> k);
               sign = (\<lambda>m. if neg then - int m else int m)
           in if fpart = [] \<and> epart = None
              then Some (JInt (sign (nat_of_digits ipart)), n)
              else Some (JFloat (sign (nat_of_digits (ipart @ fpart)))
                           ((case epart of None \<Rightarrow> 0 | Some (x, k) \<Rightarrow> x)
                            - int (length fpart)),
                         n)))"

definition lex_number :: "string \<Rightarrow> (json \<times> nat) option" where
  "lex_number s =
     (case s of
        [] \<Rightarrow> None
      | c # cs \<Rightarrow> if c = CHR ''-'' then number_body True cs else number_body False s)"

text \<open>
  The token at the start of a non-empty text, if there is one, and the number of
  characters it takes; whitespace is read as no token of length one. The order of the
  tests is the scanner's: string, containers, \<^verbatim>\<open>null\<close>, \<^verbatim>\<open>true\<close>, \<^verbatim>\<open>false\<close>, number, \<^verbatim>\<open>NaN\<close>,
  \<^verbatim>\<open>Infinity\<close>, \<^verbatim>\<open>-Infinity\<close>.
\<close>

definition next_token :: "string \<Rightarrow> (token option \<times> nat) option" where
  "next_token s =
     (case s of
        [] \<Rightarrow> None
      | c # cs \<Rightarrow>
          (if json_ws c then Some (None, 1)
           else if c = CHR ''{'' then Some (Some TLBrace, 1)
           else if c = CHR ''}'' then Some (Some TRBrace, 1)
           else if c = CHR ''['' then Some (Some TLBracket, 1)
           else if c = CHR '']'' then Some (Some TRBracket, 1)
           else if c = CHR '':'' then Some (Some TColon, 1)
           else if c = CHR '','' then Some (Some TComma, 1)
           else if c = CHR 0x22 then
             (case lex_string cs of
                None \<Rightarrow> None
              | Some (str, n) \<Rightarrow> Some (Some (TValue (JStr str)), Suc n))
           else if py_startswith s ''null'' then Some (Some (TValue JNull), 4)
           else if py_startswith s ''true'' then Some (Some (TValue (JBool True)), 4)
           else if py_startswith s ''false'' then Some (Some (TValue (JBool False)), 5)
           else
             (case lex_number s of
                Some (v, n) \<Rightarrow> Some (Some (TValue v), n)
              | None \<Rightarrow>
                  (if py_startswith s ''NaN'' then Some (Some (TValue JNaN), 3)
                   else if py_startswith s ''Infinity''
                   then Some (Some (TValue (JInfinity False)), 8)
                   else if py_startswith s ''-Infinity''
                   then Some (Some (TValue (JInfinity True)), 9)
                   else None))))"

fun lex :: "string \<Rightarrow> token list option" where
  "lex [] = Some []"
| "lex (c # cs) =
     (case next_token (c # cs) of
        None \<Rightarrow> None
      | Some (tok, n) \<Rightarrow>
          (case lex (drop (n - 1) cs) of
             None \<Rightarrow> None
           | Some ts \<Rightarrow> Some (case tok of None \<Rightarrow> ts | Some t \<Rightarrow> t # ts)))"

text \<open>
  The automaton: the stack holds the containers that are open, innermost first, an object
  with the key whose value is awaited; the mode says what may come next.
\<close>

datatype frame =
    InArr "json list"
  | InObj "(string \<times> json) list"
  | InKey "(string \<times> json) list" string

datatype mode =
    MValue
  | MFirst
  | MKeyFirst
  | MKey
  | MColon
  | MNext
  | MEnd json

text \<open>A value is complete: it is the result, an array element or the value of a key.\<close>

fun push :: "frame list \<Rightarrow> json \<Rightarrow> (frame list \<times> mode) option" where
  "push [] v = Some ([], MEnd v)"
| "push (InArr xs # st) v = Some (InArr (xs @ [v]) # st, MNext)"
| "push (InKey kvs k # st) v = Some (InObj (dict_set kvs k v) # st, MNext)"
| "push (InObj kvs # st) v = None"

definition value_start :: "frame list \<Rightarrow> token \<Rightarrow> (frame list \<times> mode) option" where
  "value_start st t =
     (case t of
        TValue v \<Rightarrow> push st v
      | TLBracket \<Rightarrow> Some (InArr [] # st, MFirst)
      | TLBrace \<Rightarrow> Some (InObj [] # st, MKeyFirst)
      | _ \<Rightarrow> None)"

definition key_start :: "frame list \<Rightarrow> token \<Rightarrow> (frame list \<times> mode) option" where
  "key_start st t =
     (case t of
        TValue (JStr k) \<Rightarrow> (case st of InObj kvs # st' \<Rightarrow> Some (InKey kvs k # st', MColon)
                                      | _ \<Rightarrow> None)
      | _ \<Rightarrow> None)"

fun pstep :: "frame list \<times> mode \<Rightarrow> token \<Rightarrow> (frame list \<times> mode) option" where
  "pstep (st, MValue) t = value_start st t"
| "pstep (st, MFirst) t =
     (if t = TRBracket then (case st of InArr xs # st' \<Rightarrow> push st' (JArr xs) | _ \<Rightarrow> None)
      else value_start st t)"
| "pstep (st, MKeyFirst) t =
     (if t = TRBrace then (case st of InObj kvs # st' \<Rightarrow> push st' (JObj kvs) | _ \<Rightarrow> None)
      else key_start st t)"
| "pstep (st, MKey) t = key_start st t"
| "pstep (st, MColon) t = (if t = TColon then Some (st, MValue) else None)"
| "pstep (st, MNext) t =
     (case st of
        InArr xs # st' \<Rightarrow>
          (if t = TComma then Some (st, MValue)
           else if t = TRBracket then push st' (JArr xs) else None)
      | InObj kvs # st' \<Rightarrow>
          (if t = TComma then Some (st, MKey)
           else if t = TRBrace then push st' (JObj kvs) else None)
      | _ \<Rightarrow> None)"
| "pstep (st, MEnd v) t = None"

fun run_tokens :: "frame list \<times> mode \<Rightarrow> token list \<Rightarrow> (frame list \<times> mode) option" where
  "run_tokens s [] = Some s"
| "run_tokens s (t # ts) = (case pstep s t of None \<Rightarrow> None | Some s' \<Rightarrow> run_tokens s' ts)"

definition parse_tokens :: "token list \<Rightarrow> json option" where
  "parse_tokens ts =
     (case run_tokens ([], MValue) ts of
        Some ([], MEnd v) \<Rightarrow> Some v
      | _ \<Rightarrow> None)"

definition json_loads :: "string \<Rightarrow> py_error + json" where
  "json_loads s =
     (case lex s of
        None \<Rightarrow> Inl (JSONDecodeError ''invalid JSON text'')
      | Some ts \<Rightarrow>
          (case parse_tokens ts of
             None \<Rightarrow> Inl (JSONDecodeError ''invalid JSON text'')
           | Some v \<Rightarrow> Inr v))"

section \<open>Predicates of the properties\<close>

text \<open>\<^verbatim>\<open>k in d\<close> for a dict \<open>d\<close>.\<close>

definition has_key :: "json \<Rightarrow> string \<Rightarrow> bool" where
  "has_key v k = (case v of JObj kvs \<Rightarrow> k \<in> set (map fst kvs) | _ \<Rightarrow> False)"







section \<open>Concrete inputs\<close>

text \<open>A stored session and a follow-up request that names it.\<close>

definition session0 :: "(unit, unit) session" where
  "session0 = \<lparr>chat_history = [turn ''user'' (JStr ''birthday party'')],
               food_items = JArr [JStr ''Cake''], products = JArr [],
               food_search_results = (), product_search_results = (),
               final_selection = empty_selection\<rparr>"

definition request0 :: json where
  "request0 = JObj [(''session_id'', JStr ''s1''), (''message'', JStr ''no cake'')]"



definition distinct_text :: string where
  \<open>distinct_text = ''{"food_selection": [{"item_name": "Pizza", "restaurant_id": "r1"}, {"item_name": "Cake", "restaurant_id": "r1"}], "product_selection": [{"product_name": "Poppers"}]}''\<close>

definition distinct_selection :: json where
  "distinct_selection =
     JObj [(''food_selection'',
            JArr [JObj [(''item_name'', JStr ''Pizza''), (''restaurant_id'', JStr ''r1'')],
                  JObj [(''item_name'', JStr ''Cake''), (''restaurant_id'', JStr ''r1'')]]),
           (''product_selection'', JArr [JObj [(''product_name'', JStr ''Poppers'')]])]"

text \<open>
  A commerce API that accepts every payload, line items of a cart request, the payload
  the handler builds for one, a request whose second item has the quantity \<^verbatim>\<open>"two"\<close>, and a
  request that carries a \<^verbatim>\<open>user_id\<close> of its own.
\<close>

definition post_ok :: "unit \<Rightarrow> json \<Rightarrow> (py_error + http_response) \<times> unit" where
  "post_ok w payload = (Inr \<lparr>status_code = 200, response_text = ''added''\<rparr>, w)"

definition cart_item :: "string \<Rightarrow> json \<Rightarrow> json" where
  "cart_item item_id quantity =
     JObj [(''item_name'', JStr ''Pizza''), (''item_id'', JStr item_id),
           (''quantity'', quantity), (''restaurant_id'', JStr ''r1''),
           (''image_url'', JStr ''http://img/pizza.png'')]"

definition cart_payload :: "string \<Rightarrow> int \<Rightarrow> json" where
  "cart_payload item_id quantity =
     JObj [(''user_id'', JStr ''5d320bcc-5ccd-4510-aace-695a3d864c18''),
           (''restaurant_id'', JStr ''r1''), (''item_id'', JStr item_id),
           (''quantity'', JInt quantity), (''producturl'', JStr ''http://img/pizza.png'')]"

definition cart_request_bad :: json where
  "cart_request_bad =
     JObj [(''food_selection'',
            JArr [cart_item ''i1'' (JInt 2), cart_item ''i2'' (JStr ''two''),
                  cart_item ''i3'' (JInt 1)])]"

definition cart_request :: "string \<Rightarrow> json" where
  "cart_request uid =
     JObj [(''food_selection'', JArr [cart_item ''i1'' (JInt 2)]), (''user_id'', JStr uid)]"

text \<open>A table for the search aggregator.\<close>

definition menu_table :: "(nat, unit) menu_item list" where
  "menu_table =
     [\<lparr>name = Some ''Veggie Pizza'', review = Some 3, columns = ()\<rparr>,
      \<lparr>name = Some ''veggie pizza'', review = None, columns = ()\<rparr>,
      \<lparr>name = Some ''Cake'', review = Some 5, columns = ()\<rparr>,
      \<lparr>name = Some ''VEGGIE PIZZA'', review = Some 5, columns = ()\<rparr>,
      \<lparr>name = None, review = Some 5, columns = ()\<rparr>,
      \<lparr>name = Some ''Veggie pizza'', review = Some 4, columns = ()\<rparr>]"

text \<open>
  A response with a triple backtick inside a name, the same response inside a fenced block
  without a language tag, and the values with and without the inner backticks.
\<close>

definition fence_inner_text :: string where
  \<open>fence_inner_text = ''{"food_items": ["a```b"], "products": []}''\<close>

definition fence_outer_text :: string where
  "fence_outer_text = ''```\<newline>'' @ fence_inner_text @ ''\<newline>```''"

definition fence_inner_value :: json where
  "fence_inner_value =
     JObj [(''food_items'', JArr [JStr ''a```b'']), (''products'', JArr [])]"

definition fence_removed_value :: json where
  "fence_removed_value =
     JObj [(''food_items'', JArr [JStr ''ab'']), (''products'', JArr [])]"

section \<open>Properties\<close>

subsection \<open>The refinement loop\<close>

lemma continue_chat_known:
  assumes "py_get data ''session_id'' = Inr (JStr sid)" and "sid \<noteq> []"
    and "py_get data ''message'' = Inr msg" and "truthy msg"
    and "ctxs sid = Some c"
  shows "continue_chat loads backend ctxs data =
     (case revise loads backend (chat_history c @ [turn ''user'' msg]) (final_selection c) of
        Inr (revised, revised_data) \<Rightarrow>
          (Inr \<lparr>status = 200,
                body = JObj [(''revised_selection'', revised_data),
                             (''chat_history'',
                              JArr (chat_history c @
                                      [turn ''user'' msg, turn ''assistant'' (JStr revised)]))]\<rparr>,
           ctxs(sid \<mapsto> c\<lparr>final_selection := revised_data,
                           chat_history := chat_history c @
                             [turn ''user'' msg, turn ''assistant'' (JStr revised)]\<rparr>))
      | Inl e \<Rightarrow>
          (Inr \<lparr>status = 200,
                body = JObj [(''error'', JStr ''Failed to process revision''),
                             (''details'', JStr (str_of_error e))]\<rparr>,
           ctxs(sid \<mapsto> c\<lparr>chat_history := chat_history c @ [turn ''user'' msg]\<rparr>)))"
  using assms by (simp add: continue_chat_def Let_def split: sum.splits prod.splits)

lemma revise_fails:
  assumes "backend (RefineRequest h sel) = Inl e \<or>
           (\<exists>raw. backend (RefineRequest h sel) = Inr raw \<and> loads (py_strip raw) = Inl e)"
  shows "revise loads backend h sel = Inl e"
  using assms by (auto simp: revise_def Let_def)

lemma revise_succeeds:
  assumes "backend (RefineRequest h sel) = Inr raw" and "loads (py_strip raw) = Inr v"
  shows "revise loads backend h sel = Inr (py_strip raw, v)"
  using assms by (simp add: revise_def Let_def)

lemma loads_empty_object: \<open>json_loads (py_strip ''{}'') = Inr (JObj [])\<close>
  by code_simp

lemma loads_prose: \<open>json_loads (py_strip ''Sure!'') = Inl (JSONDecodeError ''invalid JSON text'')\<close>
  by code_simp

lemma request0_fields:
  "py_get request0 ''session_id'' = Inr (JStr ''s1'')"
  "py_get request0 ''message'' = Inr (JStr ''no cake'')"
  by (simp_all add: request0_def py_get_def)

text \<open>
  Claim C2. A request to \<^verbatim>\<open>/chat/continue\<close> names a stored session \<open>c\<close> and carries a
  message. If the refinement turn fails (the backend call raises, or the stripped response
  does not decode), the handler returns a result with an \<^verbatim>\<open>error\<close> key, and the stored
  session is \<open>c\<close> with the user turn appended to its chat history and nothing else changed:
  the final selection is the old one and no assistant turn is there. If the turn succeeds,
  the stored session has the user turn and the assistant turn (the stripped response text)
  appended and its final selection replaced by the decoded value, which the response
  carries as \<^verbatim>\<open>revised_selection\<close>. No other session changes in either case.
\<close>

theorem continue_chat_refinement:
  assumes "py_get data ''session_id'' = Inr (JStr sid)" and "sid \<noteq> []"
    and "py_get data ''message'' = Inr msg" and "truthy msg"
    and "ctxs sid = Some c"
    and "history1 = chat_history c @ [turn ''user'' msg]"
    and "request = RefineRequest history1 (final_selection c)"
  shows "(\<forall>e. backend request = Inl e \<or>
               (\<exists>raw. backend request = Inr raw \<and> loads (py_strip raw) = Inl e) \<longrightarrow>
            (\<exists>resp. continue_chat loads backend ctxs data =
                      (Inr resp, ctxs(sid \<mapsto> c\<lparr>chat_history := history1\<rparr>)) \<and>
                    has_key (body resp) ''error'')) \<and>
         (\<forall>raw v. backend request = Inr raw \<and> loads (py_strip raw) = Inr v \<longrightarrow>
            (\<exists>resp. continue_chat loads backend ctxs data =
                      (Inr resp,
                       ctxs(sid \<mapsto> c\<lparr>final_selection := v,
                                       chat_history := history1 @
                                         [turn ''assistant'' (JStr (py_strip raw))]\<rparr>)) \<and>
                    py_get (body resp) ''revised_selection'' = Inr v))"
proof (intro conjI allI impI)
  fix e
  assume "backend request = Inl e \<or>
          (\<exists>raw. backend request = Inr raw \<and> loads (py_strip raw) = Inl e)"
  then have "revise loads backend history1 (final_selection c) = Inl e"
    unfolding assms(7) by (rule revise_fails)
  then show "\<exists>resp. continue_chat loads backend ctxs data =
                      (Inr resp, ctxs(sid \<mapsto> c\<lparr>chat_history := history1\<rparr>)) \<and>
                    has_key (body resp) ''error''"
    using assms(1-6)
    by (simp add: continue_chat_known [of data sid msg ctxs c] has_key_def)
next
  fix raw v
  assume "backend request = Inr raw \<and> loads (py_strip raw) = Inr v"
  then have "revise loads backend history1 (final_selection c) = Inr (py_strip raw, v)"
    unfolding assms(7) by (simp add: revise_succeeds)
  then show "\<exists>resp. continue_chat loads backend ctxs data =
                      (Inr resp,
                       ctxs(sid \<mapsto> c\<lparr>final_selection := v,
                                       chat_history := history1 @
                                         [turn ''assistant'' (JStr (py_strip raw))]\<rparr>)) \<and>
                    py_get (body resp) ''revised_selection'' = Inr v"
    using assms(1-6)
    by (simp add: continue_chat_known [of data sid msg ctxs c] py_get_def)
qed

theorem continue_chat_refinement_witness:
  "snd (continue_chat json_loads (\<lambda>q. Inr ''Sure!'') [''s1'' \<mapsto> session0] request0) ''s1'' =
     Some (session0\<lparr>chat_history := chat_history session0 @ [turn ''user'' (JStr ''no cake'')]\<rparr>) \<and>
   snd (continue_chat json_loads (\<lambda>q. Inr ''{}'') [''s1'' \<mapsto> session0] request0) ''s1'' =
     Some (session0\<lparr>final_selection := JObj [],
                    chat_history := chat_history session0 @
                      [turn ''user'' (JStr ''no cake''), turn ''assistant'' (JStr ''{}'')]\<rparr>)"
proof -
  have strip: "py_strip ''{}'' = ''{}''" by code_simp
  have known: "[''s1'' \<mapsto> session0] ''s1'' = Some session0" by simp
  have a: "snd (continue_chat json_loads (\<lambda>q. Inr ''Sure!'') [''s1'' \<mapsto> session0] request0) ''s1'' =
     Some (session0\<lparr>chat_history := chat_history session0 @ [turn ''user'' (JStr ''no cake'')]\<rparr>)"
    using continue_chat_refinement [where data = request0 and sid = "''s1''"
        and msg = "JStr ''no cake''" and ctxs = "[''s1'' \<mapsto> session0]" and c = session0
        and loads = json_loads and backend = "\<lambda>q. Inr ''Sure!''",
        OF request0_fields(1) _ request0_fields(2) _ known refl refl]
      loads_prose
    by auto
  have b: "snd (continue_chat json_loads (\<lambda>q. Inr ''{}'') [''s1'' \<mapsto> session0] request0) ''s1'' =
     Some (session0\<lparr>final_selection := JObj [],
                    chat_history := chat_history session0 @
                      [turn ''user'' (JStr ''no cake''), turn ''assistant'' (JStr ''{}'')]\<rparr>)"
    using continue_chat_refinement [where data = request0 and sid = "''s1''"
        and msg = "JStr ''no cake''" and ctxs = "[''s1'' \<mapsto> session0]" and c = session0
        and loads = json_loads and backend = "\<lambda>q. Inr ''{}''",
        OF request0_fields(1) _ request0_fields(2) _ known refl refl]
      loads_empty_object strip
    by auto
  from a b show ?thesis by simp
qed

text \<open>
  Claim C9. A request to \<^verbatim>\<open>/chat/continue\<close> names a stored session and carries a message.
  If the refinement turn fails (the backend call raises, or the stripped response does not
  decode), the handler returns a response, not an exception: its status code is 200 and its
  body has the keys \<^verbatim>\<open>error\<close> and \<^verbatim>\<open>details\<close>, the latter being the text of the exception.
\<close>

theorem continue_chat_failure_is_200:
  assumes "py_get data ''session_id'' = Inr (JStr sid)" and "sid \<noteq> []"
    and "py_get data ''message'' = Inr msg" and "truthy msg"
    and "ctxs sid = Some c"
    and "request = RefineRequest (chat_history c @ [turn ''user'' msg]) (final_selection c)"
    and "backend request = Inl e \<or>
         (\<exists>raw. backend request = Inr raw \<and> loads (py_strip raw) = Inl e)"
  shows "\<exists>resp. fst (continue_chat loads backend ctxs data) = Inr resp \<and>
           status resp = 200 \<and>
           has_key (body resp) ''error'' \<and> has_key (body resp) ''details'' \<and>
           py_get (body resp) ''details'' = Inr (JStr (str_of_error e))"
proof -
  have "revise loads backend (chat_history c @ [turn ''user'' msg]) (final_selection c) = Inl e"
    using assms(7) unfolding assms(6) by (rule revise_fails)
  then show ?thesis
    using assms(1-5)
    by (simp add: continue_chat_known [of data sid msg ctxs c] has_key_def py_get_def)
qed

theorem continue_chat_failure_is_200_witness:
  "\<exists>resp. fst (continue_chat json_loads (\<lambda>q. Inl (OtherError ''connection refused''))
                  [''s1'' \<mapsto> session0] request0) = Inr resp \<and>
          status resp = 200 \<and>
          has_key (body resp) ''error'' \<and> has_key (body resp) ''details'' \<and>
          py_get (body resp) ''details'' = Inr (JStr ''connection refused'')"
proof -
  have known: "[''s1'' \<mapsto> session0] ''s1'' = Some session0" by simp
  show ?thesis
    using continue_chat_failure_is_200 [where data = request0 and sid = "''s1''"
        and msg = "JStr ''no cake''" and ctxs = "[''s1'' \<mapsto> session0]" and c = session0
        and loads = json_loads and backend = "\<lambda>q. Inl (OtherError ''connection refused'')"
        and e = "OtherError ''connection refused''",
        OF request0_fields(1) _ request0_fields(2) _ known refl]
    by simp
qed


subsection \<open>The fallback engine\<close>

lemma set_sample_draw: "set (sample_draw r xs k) \<subseteq> set xs"
proof (induction r xs k rule: sample_draw.induct)
  case (3 r x xs k)
  let ?i = "r 0 mod length (x # xs)"
  have i: "?i < length (x # xs)" by simp
  have "set (take ?i (x # xs) @ drop (Suc ?i) (x # xs)) \<subseteq> set (x # xs)"
    by (auto dest: in_set_takeD in_set_dropD)
  moreover have "(x # xs) ! ?i \<in> set (x # xs)" using i by (rule nth_mem)
  ultimately show ?case using 3 by (auto simp: Let_def)
qed simp_all

lemma length_sample_draw: "k \<le> length xs \<Longrightarrow> length (sample_draw r xs k) = k"
proof (induction r xs k rule: sample_draw.induct)
  case (3 r x xs k)
  let ?i = "r 0 mod length (x # xs)"
  have i: "?i < length (x # xs)" by simp
  have "?i \<le> length xs" using i by simp
  then have "length (take ?i (x # xs) @ drop (Suc ?i) (x # xs)) = length xs"
    by simp
  with 3 show ?case by (simp add: Let_def)
qed simp_all

lemma set_fromkeys: "set (fromkeys xs) = set xs"
  by (induction xs) auto

lemma distinct_fromkeys: "distinct (fromkeys xs)"
  by (induction xs) (auto simp: distinct_removeAll)

lemma fromkeys_Nil: "fromkeys xs = [] \<longleftrightarrow> xs = []"
  by (cases xs) simp_all

lemma set_keyword_matches:
  "set (keyword_matches kws available suggested) \<subseteq> set suggested \<union> set available"
proof (induction kws arbitrary: suggested)
  case (Cons keyword kws)
  let ?m = "filter (\<lambda>item. py_in (py_lower keyword) (py_lower item)) available"
  have "set (take 2 ?m) \<subseteq> set available" by (auto dest: in_set_takeD)
  with Cons [of "suggested @ take 2 ?m"] Cons [of suggested]
  show ?case by (auto simp: Let_def)
qed simp

lemma sample_if_empty_ok:
  assumes "available \<noteq> []"
  shows "\<exists>xs r'. sample_if_empty r suggested available = (Inr xs, r') \<and> xs \<noteq> [] \<and>
           set xs \<subseteq> set suggested \<union> set available"
proof (cases "suggested = []")
  case True
  let ?k = "min 3 (length available)"
  have "0 < length available" using assms by simp
  then have k: "?k \<le> length available" "0 < ?k" by simp_all
  have "length (sample_draw r available ?k) = ?k" using k(1) by (rule length_sample_draw)
  then have "length (sample_draw r available ?k) \<noteq> 0" using k(2) by linarith
  then have "sample_draw r available ?k \<noteq> []" by (simp only: length_0_conv not_False_eq_True)
  then show ?thesis
    using True assms set_sample_draw [of r available ?k]
    by (simp add: sample_if_empty_def random_sample_def)
next
  case False
  then show ?thesis by (simp add: sample_if_empty_def)
qed


lemma take5_fromkeys:
  "set (take 5 (fromkeys xs)) \<subseteq> set xs" "distinct (take 5 (fromkeys xs))"
  "length (take 5 (fromkeys xs)) \<le> 5" "xs \<noteq> [] \<Longrightarrow> take 5 (fromkeys xs) \<noteq> []"
  using set_fromkeys [of xs] by (auto dest: in_set_takeD simp: distinct_fromkeys fromkeys_Nil)


text \<open>
  Claim C3. For every request text, every state of the random generator and every pair of
  non-empty catalog name lists, \<^verbatim>\<open>create_fallback_suggestions\<close> returns (it raises nothing,
  and it has no access to the backend: the backend is no argument of it) the dict
  \<^verbatim>\<open>{"food_items": foods, "products": prods}\<close> in which each of the two lists is non-empty,
  holds only names of the corresponding catalog list, holds no name twice and has at most
  five entries.
\<close>

theorem create_fallback_suggestions_sound:
  assumes "available_food_items \<noteq> []" and "available_products \<noteq> []"
  shows "\<exists>foods prods r'.
      create_fallback_suggestions r user_query available_food_items available_products =
        (Inr (JObj [(''food_items'', JArr (map JStr foods)),
                    (''products'', JArr (map JStr prods))]), r') \<and>
      foods \<noteq> [] \<and> set foods \<subseteq> set available_food_items \<and> distinct foods \<and>
      length foods \<le> 5 \<and>
      prods \<noteq> [] \<and> set prods \<subseteq> set available_products \<and> distinct prods \<and>
      length prods \<le> 5"
proof -
  obtain fk pk where ek: "event_keywords (py_lower user_query) = (fk, pk)"
    by (cases "event_keywords (py_lower user_query)")
  let ?f0 = "keyword_matches fk available_food_items []"
  let ?p0 = "keyword_matches pk available_products []"
  obtain xs r1 where 1: "sample_if_empty r ?f0 available_food_items = (Inr xs, r1)"
    and xs: "xs \<noteq> []" "set xs \<subseteq> set ?f0 \<union> set available_food_items"
    using sample_if_empty_ok [OF assms(1)] by blast
  obtain ys r2 where 2: "sample_if_empty r1 ?p0 available_products = (Inr ys, r2)"
    and ys: "ys \<noteq> []" "set ys \<subseteq> set ?p0 \<union> set available_products"
    using sample_if_empty_ok [OF assms(2)] by blast
  have xs': "set xs \<subseteq> set available_food_items"
    using xs(2) set_keyword_matches [of fk available_food_items "[]"] by auto
  have ys': "set ys \<subseteq> set available_products"
    using ys(2) set_keyword_matches [of pk available_products "[]"] by auto
  have res: "create_fallback_suggestions r user_query available_food_items available_products =
        (Inr (JObj [(''food_items'', JArr (map JStr (take 5 (fromkeys xs)))),
                    (''products'', JArr (map JStr (take 5 (fromkeys ys))))]), r2)"
    by (simp add: create_fallback_suggestions_def ek 1 2 suggestion_set_def)
  show ?thesis
    using res take5_fromkeys [of xs] take5_fromkeys [of ys] xs(1) ys(1) xs' ys'
    by blast
qed


theorem create_fallback_suggestions_sound_witness:
  "\<exists>foods prods r'.
      create_fallback_suggestions (\<lambda>n. n) ''a quiet evening'' [''Tea'', ''Cake''] [''Soap''] =
        (Inr (JObj [(''food_items'', JArr (map JStr foods)),
                    (''products'', JArr (map JStr prods))]), r') \<and>
      foods \<noteq> [] \<and> set foods \<subseteq> set [''Tea'', ''Cake''] \<and> distinct foods \<and>
      length foods \<le> 5 \<and>
      prods \<noteq> [] \<and> set prods \<subseteq> set [''Soap''] \<and> distinct prods \<and>
      length prods \<le> 5"
  using create_fallback_suggestions_sound [of "[''Tea'', ''Cake'']" "[''Soap'']" "\<lambda>n. n"
      "''a quiet evening''"]
  by simp

subsection \<open>Extraction failure in the two stages\<close>







subsection \<open>The final selection stage\<close>

text \<open>
  Claim C1. The claim holds for a response that fails both extraction attempts (see
  \<open>selection_undecodable\<close>). It fails for a backend call that raises: the call stands
  outside every \<^verbatim>\<open>try\<close>, so the exception leaves \<^verbatim>\<open>get_final_combined_selection\<close>, and no
  empty SelectionResult is returned. The function evaluated with a backend that refuses
  the connection:
\<close>

theorem selection_backend_error_escapes:
  "get_final_combined_selection json_loads (\<lambda>q. Inl (OtherError ''connection refused''))
     ''birthday party'' () () = Inl (OtherError ''connection refused'')"
  by (simp add: get_final_combined_selection_def)







lemma loads_distinct_text:
  "json_loads (selection_clean distinct_text) = Inr distinct_selection"
  "re_search_braces (selection_clean distinct_text) = Some distinct_text"
  "json_loads distinct_text = Inr distinct_selection"
  by code_simp+




subsection \<open>The cart endpoint\<close>

lemma make_payload_user_id:
  assumes "make_payload item = Inr payload"
  shows "py_get payload ''user_id'' = Inr (JStr ''5d320bcc-5ccd-4510-aace-695a3d864c18'')"
  using assms
  by (auto simp: make_payload_def py_get_def user_id_def split: sum.splits if_splits)

lemma add_loop_posted:
  assumes "add_loop post items run = (r, run')" and "\<forall>p \<in> set (posted run). P p"
    and "\<forall>item p. make_payload item = Inr p \<longrightarrow> P p"
  shows "\<forall>p \<in> set (posted run'). P p"
  using assms
proof (induction post items run arbitrary: r run' rule: add_loop.induct)
  case (1 post run)
  then show ?case by simp
next
  case (2 post item items run)
  show ?case
  proof (cases "make_payload item")
    case (Inl e)
    with "2.prems" show ?thesis by simp
  next
    case (Inr payload)
    have P: "P payload" using Inr "2.prems"(3) by blast
    obtain res w where post: "post (world run) payload = (res, w)"
      by (cases "post (world run) payload")
    show ?thesis
    proof (cases res)
      case (Inl e)
      let ?run = "run\<lparr>failed_items := failed_items run @
              [JObj [(''item'', item), (''reason'', JStr (str_of_error e))]],
              posted := posted run @ [payload], world := w\<rparr>"
      have "add_loop post items ?run = (r, run')"
        using "2.prems"(1) \<open>make_payload item = Inr payload\<close> post Inl by simp
      moreover have "\<forall>p \<in> set (posted ?run). P p" using "2.prems"(2) P by simp
      ultimately show ?thesis
        using "2.IH"(1) [OF \<open>make_payload item = Inr payload\<close> post [symmetric] Inl]
          "2.prems"(3) by blast
    next
      case (Inr response)
      show ?thesis
      proof (cases "status_code response = 200")
        case True
        let ?run = "run\<lparr>added_items := added_items run @ [payload],
              posted := posted run @ [payload], world := w\<rparr>"
        have "add_loop post items ?run = (r, run')"
          using "2.prems"(1) \<open>make_payload item = Inr payload\<close> post Inr True by simp
        moreover have "\<forall>p \<in> set (posted ?run). P p" using "2.prems"(2) P by simp
        ultimately show ?thesis
          using "2.IH"(2) [OF \<open>make_payload item = Inr payload\<close> post [symmetric] Inr True]
            "2.prems"(3) by blast
      next
        case False
        let ?run = "run\<lparr>failed_items := failed_items run @
              [JObj [(''item'', item), (''reason'', JStr (response_text response))]],
              posted := posted run @ [payload], world := w\<rparr>"
        have "add_loop post items ?run = (r, run')"
          using "2.prems"(1) \<open>make_payload item = Inr payload\<close> post Inr False by simp
        moreover have "\<forall>p \<in> set (posted ?run). P p" using "2.prems"(2) P by simp
        ultimately show ?thesis
          using "2.IH"(3) [OF \<open>make_payload item = Inr payload\<close> post [symmetric] Inr False]
            "2.prems"(3) by blast
      qed
    qed
  qed
qed

lemma add_items_to_cart_posted:
  "\<forall>payload \<in> set (fst (snd (add_items_to_cart post w data))).
     py_get payload ''user_id'' = Inr (JStr ''5d320bcc-5ccd-4510-aace-695a3d864c18'')"
proof -
  let ?P = "\<lambda>p. py_get p ''user_id'' = Inr (JStr ''5d320bcc-5ccd-4510-aace-695a3d864c18'')"
  have loop: "\<forall>p \<in> set (posted run'). ?P p"
    if "add_loop post items \<lparr>added_items = [], failed_items = [], posted = [], world = w\<rparr> =
          (r, run')" for items r run'
    using that by (rule add_loop_posted) (simp_all add: make_payload_user_id)
  show ?thesis
    by (auto simp: add_items_to_cart_def split: sum.splits prod.splits option.splits
        dest: loop)
qed

lemma add_items_to_cart_reads_food_selection:
  assumes "py_get data ''food_selection'' = py_get data' ''food_selection''"
  shows "add_items_to_cart post w data' = add_items_to_cart post w data"
  using assms by (simp add: add_items_to_cart_def)

text \<open>
  Claim C10. Every payload the handler sends to the cart endpoint carries the user id
  \<^verbatim>\<open>5d320bcc-5ccd-4510-aace-695a3d864c18\<close>. The handler reads the key \<^verbatim>\<open>food_selection\<close> of
  the request body and no other: two bodies that agree on every key but \<^verbatim>\<open>user_id\<close> give
  the same result, the same payloads sent in the same order, and leave the commerce API in
  the same state.
\<close>

theorem cart_user_id_is_constant:
  assumes "\<forall>k. k \<noteq> ''user_id'' \<longrightarrow> py_get data k = py_get data' k"
  shows "add_items_to_cart post w data' = add_items_to_cart post w data \<and>
         (\<forall>payload \<in> set (fst (snd (add_items_to_cart post w data))).
            py_get payload ''user_id'' = Inr (JStr ''5d320bcc-5ccd-4510-aace-695a3d864c18''))"
proof -
  have "py_get data ''food_selection'' = py_get data' ''food_selection''"
    using assms by simp
  then have "add_items_to_cart post w data' = add_items_to_cart post w data"
    by (rule add_items_to_cart_reads_food_selection)
  then show ?thesis
    using add_items_to_cart_posted [of post w data] by simp
qed

lemma cart_request_eval:
  "add_items_to_cart post_ok () (cart_request ''alice'') =
     (Inr \<lparr>status = 200,
           body = JObj [(''status'', JStr ''completed''),
                        (''added'', JArr [cart_payload ''i1'' 2]),
                        (''failed'', JArr [])]\<rparr>,
      [cart_payload ''i1'' 2], ())"
  by code_simp

theorem cart_user_id_is_constant_witness:
  "add_items_to_cart post_ok () (cart_request ''mallory'') =
     (Inr \<lparr>status = 200,
           body = JObj [(''status'', JStr ''completed''),
                        (''added'', JArr [cart_payload ''i1'' 2]),
                        (''failed'', JArr [])]\<rparr>,
      [cart_payload ''i1'' 2], ())"
proof -
  have "\<forall>k. k \<noteq> ''user_id'' \<longrightarrow>
          py_get (cart_request ''alice'') k = py_get (cart_request ''mallory'') k"
    by (simp add: cart_request_def py_get_def)
  from cart_user_id_is_constant [OF this, of post_ok "()"] cart_request_eval
  show ?thesis by simp
qed

lemma add_loop_complete:
  assumes "\<forall>item \<in> set items. \<exists>p. make_payload item = Inr p"
  shows "\<exists>run'. add_loop post items run = (None, run') \<and>
           length (added_items run') + length (failed_items run') =
             length (added_items run) + length (failed_items run) + length items"
  using assms
proof (induction post items run rule: add_loop.induct)
  case (1 post run)
  then show ?case by simp
next
  case (2 post item items run)
  obtain payload where p: "make_payload item = Inr payload" using "2.prems" by auto
  have rest: "\<forall>item \<in> set items. \<exists>p. make_payload item = Inr p" using "2.prems" by simp
  obtain res w where post: "post (world run) payload = (res, w)"
    by (cases "post (world run) payload")
  show ?case
  proof (cases res)
    case (Inl e)
    from "2.IH"(1) [OF p post [symmetric] Inl rest] show ?thesis
      using p post Inl by auto
  next
    case (Inr response)
    show ?thesis
    proof (cases "status_code response = 200")
      case True
      from "2.IH"(2) [OF p post [symmetric] Inr True rest] show ?thesis
        using p post Inr True by auto
    next
      case False
      from "2.IH"(3) [OF p post [symmetric] Inr False rest] show ?thesis
        using p post Inr False by auto
    qed
  qed
qed

lemma add_items_to_cart_well_formed:
  assumes "py_get data ''food_selection'' = Inr (JArr items)" and "items \<noteq> []"
    and "\<forall>item \<in> set items. \<exists>p. make_payload item = Inr p"
  shows "\<exists>added failed sent w'.
           add_items_to_cart post w data =
             (Inr \<lparr>status = 200,
                   body = JObj [(''status'', JStr ''completed''), (''added'', JArr added),
                                (''failed'', JArr failed)]\<rparr>, sent, w') \<and>
           length added + length failed = length items"
proof -
  obtain run' where "add_loop post items
      \<lparr>added_items = [], failed_items = [], posted = [], world = w\<rparr> = (None, run')"
    and "length (added_items run') + length (failed_items run') = length items"
    using add_loop_complete [OF assms(3), of post
        "\<lparr>added_items = [], failed_items = [], posted = [], world = w\<rparr>"]
    by auto
  then show ?thesis
    using assms(1,2) by (simp add: add_items_to_cart_def user_id_def)
qed


text \<open>
  Claim C5. The claim holds when the payload of every item can be built (see
  \<open>add_items_to_cart_well_formed\<close>, for a list of items). It fails for an item whose fields
  make the construction of the payload raise: \<^verbatim>\<open>item.get\<close> and \<^verbatim>\<open>int(...)\<close> stand before the
  \<^verbatim>\<open>try\<close> of the loop body. With three items of which the second has the quantity
  \<^verbatim>\<open>"two"\<close>, the first item is sent to the cart, then ValueError leaves the handler: there is no
  response with status \<^verbatim>\<open>completed\<close>, the second item is in no \<^verbatim>\<open>failed\<close> array and the third is
  never processed.
\<close>

theorem cart_malformed_quantity_aborts:
  "add_items_to_cart post_ok () cart_request_bad =
     (Inl (ValueError ''invalid literal for int() with base 10''), [cart_payload ''i1'' 2], ())"
  by code_simp




text \<open>
  The request passes the guard of the handler (its \<^verbatim>\<open>food_selection\<close> is a non-empty list),
  and what it leaves behind is one payload sent and no response.
\<close>

theorem cart_malformed_quantity_aborts_witness:
  "truthy (JArr [cart_item ''i1'' (JInt 2), cart_item ''i2'' (JStr ''two''),
                 cart_item ''i3'' (JInt 1)]) \<and>
   fst (add_items_to_cart post_ok () cart_request_bad) =
     Inl (ValueError ''invalid literal for int() with base 10'') \<and>
   fst (snd (add_items_to_cart post_ok () cart_request_bad)) = [cart_payload ''i1'' 2]"
  using cart_malformed_quantity_aborts by simp

subsection \<open>The search aggregator\<close>














lemma menu_table_eval:
  "fetch_food_search_results (Some menu_table) (\<lambda>i. None) [''veggie pizza'', ''tea''] ''veggie pizza'' =
     Some [\<lparr>name = Some ''VEGGIE PIZZA'', review = Some 5, columns = ()\<rparr>,
           \<lparr>name = Some ''Veggie pizza'', review = Some 4, columns = ()\<rparr>,
           \<lparr>name = Some ''Veggie Pizza'', review = Some 3, columns = ()\<rparr>]"
  by code_simp




subsection \<open>Fenced responses\<close>

lemma py_in_iff: "py_in p s \<longleftrightarrow> (\<exists>a b. s = a @ p @ b)"
proof (induction s)
  case Nil
  then show ?case by auto
next
  case (Cons c cs)
  show ?case
  proof
    assume "py_in p (c # cs)"
    then consider "py_startswith (c # cs) p" | "py_in p cs" by auto
    then show "\<exists>a b. c # cs = a @ p @ b"
    proof cases
      case 1
      then have "c # cs = [] @ p @ drop (length p) (c # cs)"
        unfolding py_startswith_def by (metis append_Nil append_take_drop_id)
      then show ?thesis by blast
    next
      case 2
      then obtain a b where "cs = a @ p @ b" using Cons.IH by blast
      then have "c # cs = (c # a) @ p @ b" by simp
      then show ?thesis by blast
    qed
  next
    assume "\<exists>a b. c # cs = a @ p @ b"
    then obtain a b where ab: "c # cs = a @ p @ b" by blast
    show "py_in p (c # cs)"
    proof (cases a)
      case Nil
      then have "py_startswith (c # cs) p" using ab by (simp add: py_startswith_def)
      then show ?thesis by simp
    next
      case (Cons a' as)
      then have "cs = as @ p @ b" using ab by simp
      then have "py_in p cs" using Cons.IH by blast
      then show ?thesis by simp
    qed
  qed
qed

lemma py_strip_decomp: "\<exists>l r. s = l @ py_strip s @ r"
proof -
  let ?d = "dropWhile py_space s"
  have "s = takeWhile py_space s @ ?d" by simp
  moreover have "?d = rev (dropWhile py_space (rev ?d)) @ rev (takeWhile py_space (rev ?d))"
    by (metis rev_append rev_rev_ident takeWhile_dropWhile_id)
  ultimately have "s = takeWhile py_space s @ py_strip s @ rev (takeWhile py_space (rev ?d))"
    by (simp add: py_strip_def)
  then show ?thesis by blast
qed

lemma py_in_strip: "py_in p (py_strip s) \<Longrightarrow> py_in p s"
proof -
  assume "py_in p (py_strip s)"
  then obtain a b where "py_strip s = a @ p @ b" using py_in_iff by blast
  moreover obtain l r where "s = l @ py_strip s @ r" using py_strip_decomp by blast
  ultimately have "s = (l @ a) @ p @ (b @ r)" by simp
  then show ?thesis using py_in_iff by blast
qed

lemma py_startswith_in: "py_startswith s p \<Longrightarrow> py_in p s"
  by (cases s) (auto simp: py_startswith_def)

lemma py_endswith_in: "py_endswith s p \<Longrightarrow> py_in p s"
proof -
  assume "py_endswith s p"
  then have "s = take (length s - length p) s @ p @ []"
    unfolding py_endswith_def by (metis append_Nil2 append_take_drop_id)
  then show ?thesis using py_in_iff by blast
qed

lemma py_strip_lead: "py_space c \<Longrightarrow> py_strip (c # s) = py_strip s"
  by (simp add: py_strip_def)

lemma py_strip_trail: "py_space c \<Longrightarrow> py_strip (s @ [c]) = py_strip s"
proof (cases "\<forall>x \<in> set s. py_space x")
  case True
  assume c: "py_space c"
  have 1: "dropWhile py_space s = []" using True by (simp only: dropWhile_eq_Nil_conv)
  have "\<forall>x \<in> set (s @ [c]). py_space x" using True c by simp
  then have 2: "dropWhile py_space (s @ [c]) = []" by (simp only: dropWhile_eq_Nil_conv)
  show ?thesis unfolding py_strip_def 1 2 by simp
next
  case False
  assume c: "py_space c"
  from False obtain x where "x \<in> set s" "\<not> py_space x" by blast
  then have "dropWhile py_space (s @ [c]) = dropWhile py_space s @ [c]"
    by (rule dropWhile_append1)
  then show ?thesis using c by (simp add: py_strip_def)
qed

lemma py_strip_dropWhile: "py_strip (dropWhile py_space s) = py_strip s"
  by (simp add: py_strip_def)

lemma py_strip_keep:
  assumes "s \<noteq> []" and "\<not> py_space (hd s)" and "\<not> py_space (last s)"
  shows "py_strip s = s"
proof -
  have "dropWhile py_space s = s" using assms(1,2) by (cases s) simp_all
  moreover have "dropWhile py_space (rev s) = rev s"
    using assms(1,3) by (cases "rev s") (simp_all add: last_rev [symmetric] hd_rev)
  ultimately show ?thesis by (simp add: py_strip_def)
qed


lemma fence3_not_in:
  assumes "\<not> py_in ''```'' (c # cs)"
  shows "\<not> py_startswith ((c # cs) @ CHR 0x0A # r) ''```''"
proof
  assume a: "py_startswith ((c # cs) @ CHR 0x0A # r) ''```''"
  then have "py_startswith (c # cs) ''```''"
    by (cases cs; cases "tl cs") (auto simp: py_startswith_def)
  then show False using assms by simp
qed

lemma py_startswith_iff: "py_startswith s p \<longleftrightarrow> (\<exists>r. s = p @ r)"
  unfolding py_startswith_def by (metis append_eq_conv_conj append_take_drop_id)

lemma startswith_fence_json: "py_startswith s ''```json'' \<Longrightarrow> py_startswith s ''```''"
proof -
  assume "py_startswith s ''```json''"
  then obtain r where "s = ''```json'' @ r" using py_startswith_iff by blast
  then have "s = ''```'' @ (''json'' @ r)" by simp
  then show ?thesis using py_startswith_iff by blast
qed

lemma py_replace_no_fence:
  assumes "\<not> py_in ''```'' t" and "old = ''```'' \<or> old = ''```json''"
  shows "py_replace (t @ CHR 0x0A # r) old new = t @ py_replace (CHR 0x0A # r) old new"
  using assms(1)
proof (induction t)
  case Nil
  then show ?case by simp
next
  case (Cons c cs)
  have "\<not> py_startswith ((c # cs) @ CHR 0x0A # r) ''```''"
    using Cons.prems by (rule fence3_not_in)
  then have "\<not> py_startswith ((c # cs) @ CHR 0x0A # r) old"
    using assms(2) startswith_fence_json by blast
  then have "py_replace ((c # cs) @ CHR 0x0A # r) old new =
      c # py_replace (cs @ CHR 0x0A # r) old new"
    by (simp only: append_Cons py_replace.simps(2) simp_thms if_False)
  moreover have "\<not> py_in ''```'' cs" using Cons.prems by simp
  ultimately show ?case using Cons.IH by (simp del: py_replace.simps)
qed


lemma clean_unfenced:
  assumes "\<not> py_in ''```'' t"
  shows "suggestion_clean t = py_strip t" and "selection_clean t = py_strip t"
proof -
  have n: "\<not> py_in ''```'' (py_strip t)" using assms py_in_strip by blast
  then have a: "\<not> py_startswith (py_strip t) ''```''" using py_startswith_in by blast
  then have b: "\<not> py_startswith (py_strip t) ''```json''" using startswith_fence_json by blast
  have c: "\<not> py_endswith (py_strip t) ''```''" using n py_endswith_in by blast
  show "suggestion_clean t = py_strip t" by (simp add: suggestion_clean_def a b)
  show "selection_clean t = py_strip t" by (simp add: selection_clean_def a b c)
qed

lemma replace_tail:
  \<open>py_replace ''\<newline>```'' ''```json'' [] = ''\<newline>```''\<close>
  \<open>py_replace ''\<newline>```'' ''```'' [] = ''\<newline>''\<close>
  by code_simp+

lemma replace_fenced_json:
  assumes "\<not> py_in ''```'' t"
  shows "py_replace (''```json'' @ CHR 0x0A # t @ ''\<newline>```'') ''```json'' [] =
           CHR 0x0A # t @ ''\<newline>```''"
proof -
  have "py_replace (''```json'' @ CHR 0x0A # t @ ''\<newline>```'') ''```json'' [] =
        py_replace (CHR 0x0A # t @ CHR 0x0A # ''```'') ''```json'' []"
    by (simp add: py_startswith_def)
  also have "\<dots> = CHR 0x0A # py_replace (t @ CHR 0x0A # ''```'') ''```json'' []"
    by (simp add: py_startswith_def)
  also have "\<dots> = CHR 0x0A # t @ py_replace (CHR 0x0A # ''```'') ''```json'' []"
    using py_replace_no_fence [OF assms, of "''```json''" "''```''" "[]"] by simp
  finally show ?thesis using replace_tail(1) by simp
qed

lemma replace_inner:
  assumes "\<not> py_in ''```'' t"
  shows "py_replace (CHR 0x0A # t @ ''\<newline>```'') ''```'' [] = CHR 0x0A # t @ [CHR 0x0A]"
proof -
  have "py_replace (CHR 0x0A # t @ ''\<newline>```'') ''```'' [] =
        CHR 0x0A # py_replace (t @ CHR 0x0A # ''```'') ''```'' []"
    by (simp add: py_startswith_def)
  also have "\<dots> = CHR 0x0A # t @ py_replace (CHR 0x0A # ''```'') ''```'' []"
    using py_replace_no_fence [OF assms, of "''```''" "''```''" "[]"] by simp
  finally show ?thesis using replace_tail(2) by simp
qed

lemma replace_fenced_plain:
  assumes "\<not> py_in ''```'' t"
  shows "py_replace (''```'' @ CHR 0x0A # t @ ''\<newline>```'') ''```'' [] =
           CHR 0x0A # t @ [CHR 0x0A]"
proof -
  have "py_replace (''```'' @ CHR 0x0A # t @ ''\<newline>```'') ''```'' [] =
        py_replace (CHR 0x0A # t @ CHR 0x0A # ''```'') ''```'' []"
    by (simp add: py_startswith_def)
  then show ?thesis using replace_inner [OF assms] by simp
qed


lemma not_space_fence: "\<not> py_space (CHR 0x60)" "py_space (CHR 0x0A)"
  by (simp_all add: py_space_def)

lemma strip_fenced:
  "py_strip (''```json'' @ CHR 0x0A # t @ ''\<newline>```'') = ''```json'' @ CHR 0x0A # t @ ''\<newline>```''"
  "py_strip (''```'' @ CHR 0x0A # t @ ''\<newline>```'') = ''```'' @ CHR 0x0A # t @ ''\<newline>```''"
  by (rule py_strip_keep; simp add: not_space_fence)+

lemma strip_newlines: "py_strip (CHR 0x0A # t @ [CHR 0x0A]) = py_strip t"
  using py_strip_trail [of "CHR 0x0A" "CHR 0x0A # t"] py_strip_lead [of "CHR 0x0A" t]
  by (simp add: not_space_fence)

lemma strip_open_fence:
  "py_strip (CHR 0x0A # t @ ''\<newline>```'') = dropWhile py_space (t @ [CHR 0x0A]) @ ''```''"
proof -
  let ?y = "dropWhile py_space (t @ [CHR 0x0A])"
  have "dropWhile py_space (CHR 0x0A # t @ ''\<newline>```'') =
        dropWhile py_space ((t @ [CHR 0x0A]) @ ''```'')"
    by (simp add: not_space_fence)
  also have "\<dots> = ?y @ ''```''"
  proof (cases "\<forall>x \<in> set (t @ [CHR 0x0A]). py_space x")
    case True
    then have "?y = []" by (simp only: dropWhile_eq_Nil_conv)
    moreover have "dropWhile py_space ((t @ [CHR 0x0A]) @ ''```'') = dropWhile py_space ''```''"
      using True by (simp only: dropWhile_append2)
    ultimately show ?thesis by (simp add: not_space_fence)
  next
    case False
    then obtain x where "x \<in> set (t @ [CHR 0x0A])" "\<not> py_space x" by blast
    then show ?thesis by (rule dropWhile_append1)
  qed
  finally have "dropWhile py_space (CHR 0x0A # t @ ''\<newline>```'') = ?y @ ''```''" .
  then show ?thesis by (simp add: py_strip_def not_space_fence)
qed

lemma clean_fenced:
  assumes "\<not> py_in ''```'' t"
  shows "suggestion_clean (''```json\<newline>'' @ t @ ''\<newline>```'') = py_strip t"
    and "suggestion_clean (''```\<newline>'' @ t @ ''\<newline>```'') = py_strip t"
    and "selection_clean (''```json\<newline>'' @ t @ ''\<newline>```'') = py_strip t"
    and "selection_clean (''```\<newline>'' @ t @ ''\<newline>```'') = py_strip t"
proof -
  let ?j = "''```json'' @ CHR 0x0A # t @ ''\<newline>```''"
  let ?p = "''```'' @ CHR 0x0A # t @ ''\<newline>```''"
  let ?y = "dropWhile py_space (t @ [CHR 0x0A])"
  have j: "''```json\<newline>'' @ t @ ''\<newline>```'' = ?j" and p: "''```\<newline>'' @ t @ ''\<newline>```'' = ?p"
    by simp_all
  have sj: "py_startswith ?j ''```json''" and sp: "py_startswith ?p ''```''"
    and nsp: "\<not> py_startswith ?p ''```json''"
    by (simp_all add: py_startswith_def)
  have n: "\<not> py_in ''```'' (py_strip t)" using assms py_in_strip by blast
  then have e: "\<not> py_endswith (py_strip t) ''```''" using py_endswith_in by blast
  have y: "py_strip ?y = py_strip t"
    using py_strip_dropWhile [of "t @ [CHR 0x0A]"] py_strip_trail [of "CHR 0x0A" t]
    by (simp add: not_space_fence)
  have ey: "py_endswith (?y @ ''```'') ''```''" by (simp add: py_endswith_def)
  show "suggestion_clean (''```json\<newline>'' @ t @ ''\<newline>```'') = py_strip t"
    unfolding j suggestion_clean_def Let_def strip_fenced
    by (simp only: sj if_True replace_fenced_json [OF assms] replace_inner [OF assms]
        strip_newlines)
  show "suggestion_clean (''```\<newline>'' @ t @ ''\<newline>```'') = py_strip t"
    unfolding p suggestion_clean_def Let_def strip_fenced
    by (simp only: sp nsp if_True if_False replace_fenced_plain [OF assms] strip_newlines)
  show "selection_clean (''```\<newline>'' @ t @ ''\<newline>```'') = py_strip t"
    unfolding p selection_clean_def Let_def strip_fenced
    by (simp only: sp nsp if_True if_False replace_fenced_plain [OF assms] strip_newlines e)
  have "selection_clean ?j =
      py_strip (take (length (?y @ ''```'') - 3) (?y @ ''```''))"
    unfolding selection_clean_def Let_def strip_fenced
    by (simp only: sj if_True replace_fenced_json [OF assms] strip_open_fence ey)
  then show "selection_clean (''```json\<newline>'' @ t @ ''\<newline>```'') = py_strip t"
    unfolding j using y by simp
qed


lemma stage_results:
  assumes "loads (suggestion_clean content) = Inr v"
  shows "get_suggested_items_and_products loads (\<lambda>q. Inr content) r query foods prods =
           (Inr v, r)"
  using assms by (simp add: get_suggested_items_and_products_def)

lemma selection_result:
  assumes "loads (selection_clean content) = Inr v"
  shows "get_final_combined_selection loads (\<lambda>q. Inr content) query fr pr = Inr v"
  using assms by (simp add: get_final_combined_selection_def)


subsection \<open>The decoder ignores the whitespace that \<^verbatim>\<open>strip\<close> removes\<close>

lemma py_space_code: "py_space c \<Longrightarrow> (of_char c :: nat) \<in> {9, 10, 11, 12, 13, 28, 29, 30, 31, 32, 133, 160}"
  unfolding py_space_def by auto

lemma py_space_not_digit: "py_space c \<Longrightarrow> \<not> is_digit c"
  using py_space_code [of c] by (auto simp: is_digit_def)

lemma py_space_hex: "py_space c \<Longrightarrow> hex_val c = None"
  using py_space_code [of c] by (auto simp: hex_val_def)

lemma py_space_neq:
  assumes "py_space c" and "(of_char d :: nat) \<notin> {9, 10, 11, 12, 13, 28, 29, 30, 31, 32, 133, 160}"
  shows "c \<noteq> d"
  using py_space_code [OF assms(1)] assms(2) by auto

lemma py_space_unescape: "py_space c \<Longrightarrow> unescape c = None"
  using py_space_neq [of c "CHR 0x22"] py_space_neq [of c "CHR 0x5C"] py_space_neq [of c "CHR ''/''"]
    py_space_neq [of c "CHR ''b''"] py_space_neq [of c "CHR ''f''"] py_space_neq [of c "CHR ''n''"]
    py_space_neq [of c "CHR ''r''"] py_space_neq [of c "CHR ''t''"]
  by (simp add: unescape_def)

lemma py_space_chars:
  assumes "py_space c"
  shows "\<not> is_digit c" "c \<noteq> CHR ''0''" "c \<noteq> CHR ''.''" "c \<noteq> CHR ''-''" "c \<noteq> CHR ''+''"
    "c \<noteq> CHR ''e''" "c \<noteq> CHR ''E''" "c \<noteq> CHR 0x22" "c \<noteq> CHR 0x5C" "c \<noteq> CHR ''u''"
    "unescape c = None" "hex_val c = None" "(of_char c :: nat) < 32 \<or> c = CHR 0x20 \<or> c = CHR 0x85 \<or> c = CHR 0xA0"
proof -
  show "\<not> is_digit c" using assms by (rule py_space_not_digit)
  show "unescape c = None" using assms by (rule py_space_unescape)
  show "hex_val c = None" using assms by (rule py_space_hex)
  show "c \<noteq> CHR ''0''" "c \<noteq> CHR ''.''" "c \<noteq> CHR ''-''" "c \<noteq> CHR ''+''"
    "c \<noteq> CHR ''e''" "c \<noteq> CHR ''E''" "c \<noteq> CHR 0x22" "c \<noteq> CHR 0x5C" "c \<noteq> CHR ''u''"
    by (rule py_space_neq [OF assms]; simp)+
  show "(of_char c :: nat) < 32 \<or> c = CHR 0x20 \<or> c = CHR 0x85 \<or> c = CHR 0xA0"
    using assms unfolding py_space_def by auto
qed

lemma digits_append:
  assumes "\<forall>x \<in> set w. py_space x"
  shows "takeWhile is_digit (a @ w) = takeWhile is_digit a"
    and "dropWhile is_digit (a @ w) = dropWhile is_digit a @ w"
proof -
  have w: "takeWhile is_digit w = []" "dropWhile is_digit w = w"
    using assms py_space_chars by (cases w; simp)+
  show "takeWhile is_digit (a @ w) = takeWhile is_digit a"
    by (induction a) (simp_all add: w)
  show "dropWhile is_digit (a @ w) = dropWhile is_digit a @ w"
    by (induction a) (simp_all add: w)
qed

lemma int_part_append:
  assumes "\<forall>x \<in> set w. py_space x"
  shows "int_part (a @ w) = map_option (\<lambda>(i, r). (i, r @ w)) (int_part a)"
proof (cases a)
  case Nil
  then show ?thesis using assms py_space_chars by (cases w) (auto simp: int_part_def)
next
  case (Cons c cs)
  then show ?thesis
    by (simp add: int_part_def digits_append [OF assms])
qed

lemma frac_part_append:
  assumes "\<forall>x \<in> set w. py_space x"
  shows "frac_part (a @ w) = (case frac_part a of (f, r) \<Rightarrow> (f, r @ w))"
proof (cases a)
  case Nil
  then show ?thesis using assms py_space_chars by (cases w) (auto simp: frac_part_def)
next
  case (Cons c cs)
  then show ?thesis
    by (simp add: frac_part_def digits_append [OF assms])
qed

lemma lex_exponent_append:
  assumes "\<forall>x \<in> set w. py_space x"
  shows "lex_exponent (a @ w) = lex_exponent a"
proof (cases a)
  case Nil
  then show ?thesis using assms py_space_chars by (cases w) (auto simp: lex_exponent_def)
next
  case a: (Cons e r)
  show ?thesis
  proof (cases r)
    case Nil
    have "takeWhile is_digit w = []" using digits_append(1) [OF assms, of "[]"] by simp
    then show ?thesis
      using a Nil assms py_space_chars
      by (cases w) (auto simp: lex_exponent_def Let_def)
  next
    case (Cons g r')
    then show ?thesis
      using a digits_append(1) [OF assms, of r'] digits_append(1) [OF assms, of "g # r'"]
      by (simp add: lex_exponent_def Let_def del: takeWhile.simps)
  qed
qed

lemma number_body_append:
  assumes "\<forall>x \<in> set w. py_space x"
  shows "number_body neg (a @ w) = number_body neg a"
  unfolding number_body_def
  by (simp add: int_part_append [OF assms] frac_part_append [OF assms]
      lex_exponent_append [OF assms] split: option.splits prod.splits)

lemma lex_number_append:
  assumes "\<forall>x \<in> set w. py_space x"
  shows "lex_number (a @ w) = lex_number a"
proof (cases a)
  case Nil
  have "int_part w = None" using int_part_append [OF assms, of "[]"] by (simp add: int_part_def)
  then show ?thesis
    using Nil assms py_space_chars
    by (cases w) (auto simp: lex_number_def number_body_def)
next
  case (Cons c cs)
  then show ?thesis
    using number_body_append [OF assms, of _ cs] number_body_append [OF assms, of _ "c # cs"]
    by (simp add: lex_number_def)
qed


lemma int_part_length: "int_part s = Some (i, r) \<Longrightarrow> length s = length i + length r"
proof -
  assume a: "int_part s = Some (i, r)"
  have "length (takeWhile is_digit s) + length (dropWhile is_digit s) = length s"
    by (metis length_append takeWhile_dropWhile_id)
  then show ?thesis
    using a by (cases s) (auto simp: int_part_def split: if_splits)
qed

lemma frac_part_length:
  "frac_part s = (f, r) \<Longrightarrow> length s = (if f = [] then 0 else Suc (length f)) + length r"
proof -
  assume a: "frac_part s = (f, r)"
  have "length (takeWhile is_digit (tl s)) + length (dropWhile is_digit (tl s)) = length (tl s)"
    by (metis length_append takeWhile_dropWhile_id)
  then show ?thesis
    using a by (cases s) (auto simp: frac_part_def split: if_splits)
qed

lemma lex_exponent_length: "lex_exponent s = Some (x, k) \<Longrightarrow> k \<le> length s"
proof -
  assume a: "lex_exponent s = Some (x, k)"
  have t: "length (takeWhile is_digit u) \<le> length u" for u :: string
    by (rule length_takeWhile_le)
  show ?thesis
  proof (cases s)
    case Nil
    then show ?thesis using a by (simp add: lex_exponent_def)
  next
    case s: (Cons e r)
    show ?thesis
    proof (cases r)
      case Nil
      then show ?thesis using a s by (simp add: lex_exponent_def split: if_splits)
    next
      case (Cons g r')
      then show ?thesis
        using a s t [of r'] t [of r]
        by (auto simp: lex_exponent_def Let_def split: if_splits)
    qed
  qed
qed

lemma number_body_length:
  assumes "number_body neg s = Some (v, n)"
  shows "n \<le> (if neg then 1 else 0) + length s"
proof -
  obtain i s2 where i: "int_part s = Some (i, s2)"
    using assms by (auto simp: number_body_def split: option.splits)
  obtain f s3 where f: "frac_part s2 = (f, s3)" by (cases "frac_part s2")
  have n: "n = (if neg then 1 else 0) + length i + (if f = [] then 0 else Suc (length f))
      + (case lex_exponent s3 of None \<Rightarrow> 0 | Some (x, k) \<Rightarrow> k)"
    using assms i f by (auto simp: number_body_def Let_def split: if_splits)
  have "(case lex_exponent s3 of None \<Rightarrow> 0 | Some (x, k) \<Rightarrow> k) \<le> length s3"
    using lex_exponent_length [of s3] by (auto split: option.splits)
  then show ?thesis
    using n int_part_length [OF i] frac_part_length [OF f] by simp
qed

lemma lex_number_length: "lex_number s = Some (v, n) \<Longrightarrow> n \<le> length s"
  using number_body_length [of True "tl s" v n] number_body_length [of False s v n]
  by (cases s) (auto simp: lex_number_def split: if_splits)

lemma startswith_append:
  assumes "\<forall>x \<in> set w. py_space x" and "\<forall>x \<in> set p. \<not> py_space x"
  shows "py_startswith (a @ w) p = py_startswith a p"
  using assms(2)
proof (induction p arbitrary: a)
  case Nil
  then show ?case by (simp add: py_startswith_def)
next
  case (Cons x p)
  show ?case
  proof (cases a)
    case Nil
    then show ?thesis using assms(1) Cons.prems by (cases w) (auto simp: py_startswith_def)
  next
    case a: (Cons c cs)
    have "py_startswith (cs @ w) p = py_startswith cs p" using Cons by simp
    then show ?thesis using a by (simp add: py_startswith_def)
  qed
qed

lemma startswith_length: "py_startswith a p \<Longrightarrow> length p \<le> length a"
proof -
  assume "py_startswith a p"
  then have "length (take (length p) a) = length p" by (simp add: py_startswith_def)
  then show ?thesis by simp
qed


lemma unicode_escape_hex:
  "unicode_escape hs = Some d \<Longrightarrow> length hs = 4 \<and> (\<forall>h \<in> set hs. hex_val h \<noteq> None)"
  by (auto simp: unicode_escape_def split: list.splits option.splits if_splits)

lemma lex_string_spaces:
  "\<forall>x \<in> set w. py_space x \<Longrightarrow> lex_string w = None"
proof (induction w)
  case Nil
  then show ?case by simp
next
  case (Cons c w)
  then have "py_space c" by simp
  from py_space_chars(8,9,13) [OF this] Cons show ?case by auto
qed

lemma unicode_escape_append:
  assumes "\<forall>x \<in> set w. py_space x" and "unicode_escape (take 4 (cs @ w)) = Some d"
  shows "4 \<le> length cs"
proof (rule ccontr)
  assume "\<not> 4 \<le> length cs"
  then have short: "length cs < 4" by simp
  from unicode_escape_hex [OF assms(2)]
  have len: "length (take 4 (cs @ w)) = 4"
    and hex: "\<forall>h \<in> set (take 4 (cs @ w)). hex_val h \<noteq> None" by auto
  from len short have "w \<noteq> []" by auto
  then have "hd w \<in> set (take 4 (cs @ w))"
    using short by (cases w) (auto simp: take_Cons')
  moreover have "py_space (hd w)" using assms(1) \<open>w \<noteq> []\<close> by simp
  ultimately show False using hex py_space_chars(12) by blast
qed

lemma lex_string_append:
  assumes "\<forall>x \<in> set w. py_space x"
  shows "lex_string (x @ w) = Some (str, n) \<Longrightarrow> lex_string x = Some (str, n) \<and> n \<le> length x"
proof (induction x arbitrary: str n rule: lex_string.induct)
  case 1
  then show ?case using lex_string_spaces [OF assms] by simp
next
  case (2 c cs)
  show ?case
  proof (cases "c = CHR 0x22")
    case True
    then show ?thesis using "2.prems" by simp
  next
    case nq: False
    show ?thesis
    proof (cases "c = CHR 0x5C")
      case bs: True
      show ?thesis
      proof (cases cs)
        case Nil
        have "lex_string (c # w) = None"
        proof (cases w)
          case Nil then show ?thesis using bs by simp
        next
          case (Cons e w')
          then have "py_space e" using assms by simp
          from py_space_chars(10,11) [OF this] show ?thesis using bs Cons by simp
        qed
        then show ?thesis using "2.prems" Nil by simp
      next
        case cs: (Cons e cs')
        show ?thesis
        proof (cases "e = CHR ''u''")
          case u: True
          from "2.prems" obtain d where d: "unicode_escape (take 4 (cs' @ w)) = Some d"
            using bs cs u by (auto split: option.splits)
          have len: "4 \<le> length cs'" using assms d by (rule unicode_escape_append)
          then have d': "unicode_escape (take 4 cs') = Some d" using d by simp
          from "2.prems" obtain s' n' where r: "lex_string (drop 4 cs' @ w) = Some (s', n')"
            and sn: "str = d # s'" "n = n' + 6"
            using bs cs u d len by (auto split: option.splits)
          from "2.IH"(1) [OF nq bs cs u d' r]
          have "lex_string (drop 4 cs') = Some (s', n')" "n' \<le> length (drop 4 cs')" by auto
          then show ?thesis using bs cs u d' sn len by simp
        next
          case nu: False
          from "2.prems" obtain d where d: "unescape e = Some d"
            using bs cs nu by (auto split: option.splits)
          from "2.prems" obtain s' n' where r: "lex_string (cs' @ w) = Some (s', n')"
            and sn: "str = d # s'" "n = n' + 2"
            using bs cs nu d by (auto split: option.splits)
          from "2.IH"(2) [OF nq bs cs nu d r]
          have "lex_string cs' = Some (s', n')" "n' \<le> length cs'" by auto
          then show ?thesis using bs cs nu d sn by simp
        qed
      qed
    next
      case nbs: False
      show ?thesis
      proof (cases "(of_char c :: nat) < 32")
        case True
        then show ?thesis using "2.prems" nq nbs by simp
      next
        case nc: False
        from "2.prems" obtain s' n' where r: "lex_string (cs @ w) = Some (s', n')"
          and sn: "str = c # s'" "n = n' + 1"
          using nq nbs nc by (auto split: option.splits)
        from "2.IH"(3) [OF nq nbs nc r]
        have "lex_string cs = Some (s', n')" "n' \<le> length cs" by auto
        then show ?thesis using nq nbs nc sn by simp
      qed
    qed
  qed
qed


lemma literal_append:
  assumes "\<forall>x \<in> set w. py_space x"
  shows "py_startswith (a @ w) ''null'' = py_startswith a ''null''"
    "py_startswith (a @ w) ''true'' = py_startswith a ''true''"
    "py_startswith (a @ w) ''false'' = py_startswith a ''false''"
    "py_startswith (a @ w) ''NaN'' = py_startswith a ''NaN''"
    "py_startswith (a @ w) ''Infinity'' = py_startswith a ''Infinity''"
    "py_startswith (a @ w) ''-Infinity'' = py_startswith a ''-Infinity''"
  by (rule startswith_append [OF assms]; simp add: py_space_def)+

lemma next_token_append:
  assumes "\<forall>x \<in> set w. py_space x" and "next_token ((c # cs) @ w) = Some (tok, n)"
  shows "next_token (c # cs) = Some (tok, n) \<and> n \<le> length (c # cs)"
proof (cases "c = CHR 0x22")
  case True
  then obtain str k where s: "lex_string (cs @ w) = Some (str, k)"
    and t: "tok = Some (TValue (JStr str))" "n = Suc k"
    using assms(2) by (auto simp: next_token_def json_ws_def split: option.splits)
  from lex_string_append [OF assms(1) s] show ?thesis
    using True t by (simp add: next_token_def json_ws_def)
next
  case False
  note lit = literal_append [OF assms(1), of "c # cs"]
  note num = lex_number_append [OF assms(1), of "c # cs"]
  have "next_token ((c # cs) @ w) = next_token (c # cs)"
    unfolding next_token_def using False
    by (simp add: lit [simplified] num [simplified] cong: if_cong)
  then have tok: "next_token (c # cs) = Some (tok, n)"
    using assms(2) by simp
  have "n \<le> length (c # cs)"
    using tok False
      startswith_length [of "c # cs" "''null''"] startswith_length [of "c # cs" "''true''"]
      startswith_length [of "c # cs" "''false''"] startswith_length [of "c # cs" "''NaN''"]
      startswith_length [of "c # cs" "''Infinity''"]
      startswith_length [of "c # cs" "''-Infinity''"]
      lex_number_length [of "c # cs"]
    unfolding next_token_def
    by (auto split: if_splits option.splits)
  with tok show ?thesis by simp
qed

lemma next_token_space:
  assumes "py_space c"
  shows "next_token (c # cs) = (if json_ws c then Some (None, 1) else None)"
proof -
  have ne: "c \<noteq> CHR ''{''" "c \<noteq> CHR ''}''" "c \<noteq> CHR ''[''" "c \<noteq> CHR '']''" "c \<noteq> CHR '':''"
    "c \<noteq> CHR '',''" "c \<noteq> CHR 0x22" "c \<noteq> CHR ''n''" "c \<noteq> CHR ''t''" "c \<noteq> CHR ''f''"
    "c \<noteq> CHR ''N''" "c \<noteq> CHR ''I''" "c \<noteq> CHR ''-''" "c \<noteq> CHR ''0''"
    by (rule py_space_neq [OF assms]; simp)+
  have num: "lex_number (c # cs) = None"
    using ne py_space_chars(1) [OF assms]
    by (simp add: lex_number_def number_body_def int_part_def)
  show ?thesis
    using ne num by (simp add: next_token_def py_startswith_def)
qed

lemma lex_spaces:
  "\<forall>x \<in> set w. py_space x \<Longrightarrow> lex w = Some ts \<Longrightarrow> ts = []"
proof (induction w)
  case Nil
  then show ?case by simp
next
  case (Cons c w)
  then have "py_space c" by simp
  from next_token_space [OF this, of w] Cons show ?case
    by (auto split: if_splits option.splits)
qed

lemma lex_append:
  assumes "\<forall>x \<in> set w. py_space x"
  shows "lex (a @ w) = Some ts \<Longrightarrow> lex a = Some ts"
proof (induction a arbitrary: ts rule: lex.induct)
  case 1
  then show ?case using lex_spaces [OF assms] by simp
next
  case (2 c cs)
  from "2.prems" obtain tok n where t: "next_token ((c # cs) @ w) = Some (tok, n)"
    by (auto split: option.splits)
  from next_token_append [OF assms t]
  have t': "next_token (c # cs) = Some (tok, n)" and n: "n \<le> length (c # cs)" by auto
  from "2.prems" t obtain ts' where r: "lex (drop (n - 1) (cs @ w)) = Some ts'"
    and ts: "ts = (case tok of None \<Rightarrow> ts' | Some t \<Rightarrow> t # ts')"
    by (auto split: option.splits)
  have "drop (n - 1) (cs @ w) = drop (n - 1) cs @ w" using n by simp
  with r have "lex (drop (n - 1) cs @ w) = Some ts'" by simp
  from "2.IH" [OF t' refl this] show ?case using t' ts by simp
qed

lemma lex_lstrip: "lex s = Some ts \<Longrightarrow> lex (dropWhile py_space s) = Some ts"
proof (induction s)
  case Nil
  then show ?case by simp
next
  case (Cons c cs)
  show ?case
  proof (cases "py_space c")
    case True
    from next_token_space [OF True, of cs] Cons.prems
    have "json_ws c" "lex cs = Some ts" by (auto split: if_splits option.splits)
    then show ?thesis using True Cons.IH by simp
  next
    case False
    then show ?thesis using Cons.prems by simp
  qed
qed

lemma lex_strip: "lex s = Some ts \<Longrightarrow> lex (py_strip s) = Some ts"
proof -
  assume "lex s = Some ts"
  then have l: "lex (dropWhile py_space s) = Some ts" by (rule lex_lstrip)
  let ?d = "dropWhile py_space s"
  have d: "?d = py_strip s @ rev (takeWhile py_space (rev ?d))"
    unfolding py_strip_def by (metis rev_append rev_rev_ident takeWhile_dropWhile_id)
  have w: "\<forall>x \<in> set (rev (takeWhile py_space (rev ?d))). py_space x"
    by (auto dest: set_takeWhileD)
  from l d have "lex (py_strip s @ rev (takeWhile py_space (rev ?d))) = Some ts" by simp
  with w show ?thesis by (rule lex_append)
qed

lemma json_loads_strip: "json_loads s = Inr v \<Longrightarrow> json_loads (py_strip s) = Inr v"
proof -
  assume a: "json_loads s = Inr v"
  then obtain ts where "lex s = Some ts" by (auto simp: json_loads_def split: option.splits)
  then show ?thesis using a lex_strip [of s ts] by (simp add: json_loads_def)
qed


subsection \<open>Extraction from a fenced response\<close>

lemma fence_inner_eval:
  "json_loads fence_inner_text = Inr fence_inner_value"
  "json_loads (suggestion_clean fence_inner_text) = Inr fence_inner_value"
  "json_loads (suggestion_clean fence_outer_text) = Inr fence_removed_value"
  "json_loads (selection_clean fence_outer_text) = Inr fence_removed_value"
  by code_simp+

text \<open>
  Claim C6, as stated: for every text that decodes to a value, both stages extract that
  value from the text and from the text wrapped in a fenced block. The cleaning step
  removes every triple backtick of the response, so a fence marker inside the text goes
  too: the text \<^verbatim>\<open>{"food_items": ["a```b"], "products": []}\<close> alone gives the name
  \<^verbatim>\<open>a```b\<close>, and wrapped in a fence without a language tag (\<open>fence_outer_text\<close>) it gives
  \<^verbatim>\<open>ab\<close>, in both stages.
\<close>

theorem fenced_extraction_counterexample:
  "json_loads fence_inner_text = Inr fence_inner_value \<and>
   fst (get_suggested_items_and_products json_loads
          (\<lambda>q :: (unit, unit) llm_request. Inr fence_inner_text) (\<lambda>n. n) ''party''
          [''a```b''] [''Soap'']) = Inr fence_inner_value \<and>
   fst (get_suggested_items_and_products json_loads
          (\<lambda>q :: (unit, unit) llm_request. Inr fence_outer_text) (\<lambda>n. n) ''party''
          [''a```b''] [''Soap'']) = Inr fence_removed_value \<and>
   get_final_combined_selection json_loads (\<lambda>q. Inr fence_outer_text) ''party'' () () =
     Inr fence_removed_value \<and>
   fence_removed_value \<noteq> fence_inner_value"
proof -
  have "fence_removed_value \<noteq> fence_inner_value"
    by (simp add: fence_removed_value_def fence_inner_value_def)
  then show ?thesis
    by (simp add: fence_inner_eval(1)
        stage_results [where loads = json_loads and content = fence_inner_text,
          OF fence_inner_eval(2)]
        stage_results [where loads = json_loads and content = fence_outer_text,
          OF fence_inner_eval(3)]
        selection_result [where loads = json_loads and content = fence_outer_text,
          OF fence_inner_eval(4)])
qed

text \<open>
  A language tag other than \<^verbatim>\<open>json\<close> stays in the cleaned text, so the direct decode fails
  and only an object can still be found, by the brace search: the array \<^verbatim>\<open>[1]\<close> under the tag
  \<^verbatim>\<open>python\<close> is lost.
\<close>

lemma other_tag_eval:
  "json_loads ''[1]'' = Inr (JArr [JInt 1])"
  "get_final_combined_selection json_loads (\<lambda>q. Inr ''```python\<newline>[1]\<newline>```'')
     ''party'' () () = Inr empty_selection"
  by code_simp+

text \<open>
  Claim C6, amended. Let the text \<open>t\<close> decode to \<open>v\<close> and contain no triple backtick, and
  let the decoder give the same value when the whitespace around a text is stripped (as
  \<^verbatim>\<open>json.loads\<close> does, see \<open>json_loads_strip\<close>). Then the suggestion stage and the final
  selection stage both return \<open>v\<close> for the response \<open>t\<close> and for \<open>t\<close> wrapped in a fenced
  block, with the tag \<^verbatim>\<open>json\<close> or with no tag.
\<close>

theorem fenced_extraction_agrees:
  assumes "loads t = Inr v"
    and "\<forall>s u. loads s = Inr u \<longrightarrow> loads (py_strip s) = Inr u"
    and "\<not> py_in ''```'' t"
    and "fenced = ''```json\<newline>'' @ t @ ''\<newline>```'' \<or> fenced = ''```\<newline>'' @ t @ ''\<newline>```''"
  shows "get_suggested_items_and_products loads (\<lambda>q. Inr fenced) r query foods prods =
           (Inr v, r) \<and>
         get_suggested_items_and_products loads (\<lambda>q. Inr t) r query foods prods =
           (Inr v, r) \<and>
         get_final_combined_selection loads (\<lambda>q. Inr fenced) query fr pr = Inr v \<and>
         get_final_combined_selection loads (\<lambda>q. Inr t) query fr pr = Inr v"
proof -
  have l: "loads (py_strip t) = Inr v" using assms(1,2) by blast
  have "suggestion_clean fenced = py_strip t" "selection_clean fenced = py_strip t"
    using assms(4) clean_fenced [OF assms(3)] by auto
  moreover have "suggestion_clean t = py_strip t" "selection_clean t = py_strip t"
    using clean_unfenced [OF assms(3)] by auto
  ultimately show ?thesis
    using l by (simp add: stage_results selection_result)
qed


theorem fenced_extraction_agrees_witness:
  "get_suggested_items_and_products json_loads
     (\<lambda>q :: (unit, unit) llm_request. Inr (''```json\<newline>'' @ distinct_text @ ''\<newline>```''))
     (\<lambda>n. n) ''party'' [''Pizza''] [''Poppers''] = (Inr distinct_selection, (\<lambda>n. n)) \<and>
   get_suggested_items_and_products json_loads
     (\<lambda>q :: (unit, unit) llm_request. Inr distinct_text)
     (\<lambda>n. n) ''party'' [''Pizza''] [''Poppers''] = (Inr distinct_selection, (\<lambda>n. n)) \<and>
   get_final_combined_selection json_loads
     (\<lambda>q. Inr (''```json\<newline>'' @ distinct_text @ ''\<newline>```'')) ''party'' () () =
     Inr distinct_selection \<and>
   get_final_combined_selection json_loads (\<lambda>q. Inr distinct_text) ''party'' () () =
     Inr distinct_selection"
proof -
  have tol: "\<forall>s u. json_loads s = Inr u \<longrightarrow> json_loads (py_strip s) = Inr u"
    using json_loads_strip by blast
  have nf: "\<not> py_in ''```'' distinct_text" by code_simp
  show ?thesis
    by (rule fenced_extraction_agrees [where loads = json_loads and t = distinct_text,
          OF loads_distinct_text(3) tol nf disjI1 [OF refl]])
qed

end
